theory Spec2Isabelle
  imports Complex_Main "HOL-Library.AList" "HOL-Library.Log_Nat" "HOL-Library.Monad_Syntax"
begin

section \<open>Numbers\<close>

text \<open>
  The source is JavaScript: \<^verbatim>\<open>src/physics/arcade/PhysicsGroup.js\<close>. A JavaScript
  number is an IEEE 754 double. A finite double is kept as \<open>Finite m e\<close>, which stands for
  \<open>m * 2 ^ e\<close>, in one form only: zero is \<open>Finite 0 0\<close>; otherwise \<open>\<bar>m\<bar> < 2 ^ 53\<close>,
  \<open>- 1074 \<le> e\<close>, \<open>e \<le> 971\<close>, and \<open>2 ^ 52 \<le> \<bar>m\<bar>\<close> unless \<open>e = - 1074\<close> (a subnormal).
  The two zeros of IEEE 754 are one value here: they are equal under \<^verbatim>\<open>===\<close>, and this
  file has no operation that tells them apart. There is one NaN.
\<close>

datatype double = Finite int int | PosInf | NegInf | NaN

definition dzero :: double where
  "dzero = Finite 0 0"

definition is_double :: "double \<Rightarrow> bool" where
  "is_double d =
     (case d of
        Finite m e \<Rightarrow>
          if m = 0 then e = 0
          else \<bar>m\<bar> < 2 ^ 53 \<and> - 1074 \<le> e \<and> e \<le> 971 \<and> (2 ^ 52 \<le> \<bar>m\<bar> \<or> e = - 1074)
      | _ \<Rightarrow> True)"

text \<open>
  A sign, a mantissa below \<open>2 ^ 53\<close> and an exponent as a double: an exponent above 971
  is an overflow to the infinity of that sign.
\<close>

definition pack :: "bool \<Rightarrow> int \<Rightarrow> int \<Rightarrow> double" where
  "pack neg m e =
     (if m = 0 then dzero
      else if e > 971 then (if neg then NegInf else PosInf)
      else Finite (if neg then - m else m) e)"

text \<open>
  Rounding to nearest, ties to even: \<open>round_d M E\<close> is the double nearest to the exact
  value \<open>M * 2 ^ E\<close>. With \<open>n\<close> the number of bits of \<open>\<bar>M\<bar>\<close>, the mantissa loses
  \<open>k\<close> bits: enough to fit 53 bits and to keep the exponent at \<open>- 1074\<close> or above. When
  \<open>k \<le> 0\<close> nothing is lost.
\<close>

definition round_d :: "int \<Rightarrow> int \<Rightarrow> double" where
  "round_d M E =
     (if M = 0 then dzero
      else
        let a = \<bar>M\<bar>; n = bitlen a; k = max (n - 53) (- 1074 - E) in
        if k \<le> 0 then pack (M < 0) (a * 2 ^ nat (- k)) (E + k)
        else
          let q = a div 2 ^ nat k; r = a mod 2 ^ nat k; half = 2 ^ nat (k - 1);
              q1 = (if r > half \<or> (r = half \<and> odd q) then q + 1 else q)
          in if q1 = 2 ^ 53 then pack (M < 0) (2 ^ 52) (E + k + 1) else pack (M < 0) q1 (E + k))"

text \<open>The double of an integer literal.\<close>

definition num :: "int \<Rightarrow> double" where
  "num k = round_d k 0"

text \<open>
  The value of a loop counter that starts at 0 and has been incremented \<open>i\<close> times by
  \<^verbatim>\<open>i++\<close>: it is \<open>i\<close>, exact, up to \<open>2 ^ 53\<close>, where the increment no longer
  changes it. An array has fewer than \<open>2 ^ 32\<close> elements, so a counter below the
  length of an array is always exact.
\<close>

definition of_index :: "nat \<Rightarrow> double" where
  "of_index i = round_d (int (min i (2 ^ 53))) 0"

fun is_zero :: "double \<Rightarrow> bool" where
  "is_zero (Finite m e) = (m = 0)"
| "is_zero d = False"

fun is_negative :: "double \<Rightarrow> bool" where
  "is_negative (Finite m e) = (m < 0)"
| "is_negative NegInf = True"
| "is_negative d = False"

text \<open>
  \<^verbatim>\<open>x + y\<close>: NaN with a NaN operand or for opposite infinities, an infinity with an
  infinite operand, and for finite operands the exact sum rounded; adding zero is exact.
\<close>

fun dadd :: "double \<Rightarrow> double \<Rightarrow> double" where
  "dadd NaN y = NaN"
| "dadd x NaN = NaN"
| "dadd PosInf NegInf = NaN"
| "dadd NegInf PosInf = NaN"
| "dadd PosInf y = PosInf"
| "dadd NegInf y = NegInf"
| "dadd x PosInf = PosInf"
| "dadd x NegInf = NegInf"
| "dadd (Finite m1 e1) (Finite m2 e2) =
     (if m2 = 0 then Finite m1 e1
      else if m1 = 0 then Finite m2 e2
      else let e = min e1 e2 in round_d (m1 * 2 ^ nat (e1 - e) + m2 * 2 ^ nat (e2 - e)) e)"

text \<open>
  \<^verbatim>\<open>x * y\<close>: NaN with a NaN operand or for an infinity times zero, the exact product
  rounded for finite operands, and otherwise the infinity whose sign is the product of
  the signs.
\<close>

fun dmul :: "double \<Rightarrow> double \<Rightarrow> double" where
  "dmul NaN y = NaN"
| "dmul x NaN = NaN"
| "dmul (Finite m1 e1) (Finite m2 e2) = round_d (m1 * m2) (e1 + e2)"
| "dmul x y =
     (if is_zero x \<or> is_zero y then NaN
      else if is_negative x \<noteq> is_negative y then NegInf else PosInf)"

section \<open>Values, objects and the store\<close>

text \<open>
  Objects are shared by reference and mutated in place, so objects live in a store and a
  value refers to one by its address. A function value is known by its name.
\<close>

datatype jsval =
    Undefined
  | Null
  | Bool bool
  | Num double
  | Str string
  | Fn string
  | Ref nat

text \<open>
  JavaScript's truthiness, as \<^verbatim>\<open>!v\<close> and \<^verbatim>\<open>if (v)\<close> test it: among the numbers,
  zero and NaN are falsy.
\<close>

fun truthy :: "jsval \<Rightarrow> bool" where
  "truthy Undefined = False"
| "truthy Null = False"
| "truthy (Bool b) = b"
| "truthy (Num n) = (\<not> is_zero n \<and> n \<noteq> NaN)"
| "truthy (Str s) = (s \<noteq> [])"
| "truthy (Fn f) = True"
| "truthy (Ref a) = True"

text \<open>
  An object is a plain object (made by an object literal), an array, or an instance of a
  named class. Its own properties are kept in insertion order, which is the order
  \<^verbatim>\<open>for (key in obj)\<close> enumerates keys that are not array indices; every key this
  file writes is such a key. \<open>elems\<close> holds the elements of an array.
\<close>

datatype cls = PlainObject | Array | Instance string

record obj =
  cls :: cls
  props :: "(string \<times> jsval) list"
  elems :: "jsval list"

datatype body_type = DYNAMIC_BODY | STATIC_BODY

text \<open>
  The calls this file makes on its collaborators (the simulation world, a body, the base
  \<^verbatim>\<open>Group\<close> constructor) are recorded in order, with receiver and arguments.
\<close>

datatype event =
    EnableBody jsval jsval body_type
  | DisableBody jsval jsval
  | BodySetter jsval string jsval
  | GroupCall jsval jsval jsval

record js_state =
  heap :: "obj list"
  trace :: "event list"

text \<open>A thrown \<^verbatim>\<open>TypeError\<close> is the result \<open>None\<close>.\<close>

definition is_instance :: "obj list \<Rightarrow> jsval \<Rightarrow> string \<Rightarrow> bool" where
  "is_instance h v c =
     (case v of Ref a \<Rightarrow> a < length h \<and> cls (h ! a) = Instance c | _ \<Rightarrow> False)"

text \<open>
  Reading \<^verbatim>\<open>v.k\<close>: a \<^verbatim>\<open>TypeError\<close> on \<^verbatim>\<open>undefined\<close> and \<^verbatim>\<open>null\<close>, the
  property's value on an object, \<^verbatim>\<open>undefined\<close> where the object has no such property
  and on a primitive (the keys read in this file, \<^verbatim>\<open>body\<close> and \<^verbatim>\<open>velocity\<close>, are
  properties of no primitive).
\<close>

definition get_prop :: "obj list \<Rightarrow> jsval \<Rightarrow> string \<Rightarrow> jsval option" where
  "get_prop h v k =
     (case v of
        Undefined \<Rightarrow> None
      | Null \<Rightarrow> None
      | Ref a \<Rightarrow>
          if a < length h
          then Some (case map_of (props (h ! a)) k of Some x \<Rightarrow> x | None \<Rightarrow> Undefined)
          else None
      | _ \<Rightarrow> Some Undefined)"

text \<open>
  Writing \<^verbatim>\<open>v.k = x\<close>: a \<^verbatim>\<open>TypeError\<close> on \<^verbatim>\<open>undefined\<close> and \<^verbatim>\<open>null\<close>; on an
  object the property is overwritten where it stands, or appended; on a primitive the
  write is dropped (the file is not in strict mode). The properties of a function are
  not modelled.
\<close>

definition set_prop :: "jsval \<Rightarrow> string \<Rightarrow> jsval \<Rightarrow> js_state \<Rightarrow> js_state option" where
  "set_prop v k x s =
     (case v of
        Undefined \<Rightarrow> None
      | Null \<Rightarrow> None
      | Ref a \<Rightarrow>
          if a < length (heap s)
          then Some (s\<lparr>heap := (heap s)[a := (heap s ! a)\<lparr>props := AList.update k x (props (heap s ! a))\<rparr>]\<rparr>)
          else None
      | _ \<Rightarrow> Some s)"

text \<open>A new object gets the next free address.\<close>

definition alloc :: "obj \<Rightarrow> js_state \<Rightarrow> nat \<times> js_state" where
  "alloc ob s = (length (heap s), s\<lparr>heap := heap s @ [ob]\<rparr>)"

definition isArray :: "obj list \<Rightarrow> jsval \<Rightarrow> bool" where
  "isArray h v = (case v of Ref a \<Rightarrow> a < length h \<and> cls (h ! a) = Array | _ \<Rightarrow> False)"

definition array_elems :: "obj list \<Rightarrow> jsval \<Rightarrow> jsval list" where
  "array_elems h v = (case v of Ref a \<Rightarrow> if a < length h then elems (h ! a) else [] | _ \<Rightarrow> [])"

text \<open>\<^verbatim>\<open>children[0]\<close> of an array: \<^verbatim>\<open>undefined\<close> when the array is empty.\<close>

definition first_elem :: "obj list \<Rightarrow> jsval \<Rightarrow> jsval" where
  "first_elem h v = (case array_elems h v of [] \<Rightarrow> Undefined | x # xs \<Rightarrow> x)"

text \<open>
  Modelled from the spec: \<^verbatim>\<open>IsPlainObject\<close> (\<^verbatim>\<open>utils/object/IsPlainObject\<close> is not
  among the sources). The spec has the configuration record "detected structurally, not
  by type tag": the test holds of the objects made by an object literal and of nothing
  else.
\<close>

definition IsPlainObject :: "obj list \<Rightarrow> jsval \<Rightarrow> bool" where
  "IsPlainObject h v =
     (case v of Ref a \<Rightarrow> a < length h \<and> cls (h ! a) = PlainObject | _ \<Rightarrow> False)"

text \<open>
  Modelled from the spec: \<^verbatim>\<open>GetFastValue\<close> (\<^verbatim>\<open>utils/object/GetFastValue\<close> is not
  among the sources). It reads an optional field of the configuration: the field's value
  when the record has one, the given default otherwise. A field holding \<^verbatim>\<open>undefined\<close>
  counts as absent.
\<close>

definition GetFastValue :: "obj list \<Rightarrow> jsval \<Rightarrow> string \<Rightarrow> jsval \<Rightarrow> jsval" where
  "GetFastValue h source key defaultValue =
     (case source of
        Ref a \<Rightarrow>
          if a < length h
          then (case map_of (props (h ! a)) key of
                  Some x \<Rightarrow> if x = Undefined then defaultValue else x
                | None \<Rightarrow> defaultValue)
          else defaultValue
      | _ \<Rightarrow> defaultValue)"

section \<open>The Physics Group\<close>

text \<open>
  The fields of a Physics Group that this file assigns or reads. \<open>children\<close> is the
  member sequence kept by the base \<^verbatim>\<open>Group\<close>; \<open>gtype\<close> is the field \<^verbatim>\<open>type\<close>.
  \<open>defaults\<close> is the defaults object, as its properties in enumeration order.
\<close>

record physics_group =
  world :: jsval
  physicsType :: body_type
  defaults :: "(string \<times> jsval) list"
  gtype :: string
  children :: "jsval list"

subsection \<open>The constructor\<close>

text \<open>
  The object literal of lines 53-56 and 85-88:
  \<^verbatim>\<open>{ internalCreateCallback: this.createCallbackHandler,
    internalRemoveCallback: this.removeCallbackHandler }\<close>.
\<close>

definition hooks_literal :: obj where
  "hooks_literal =
     \<lparr>cls = PlainObject,
      props = [(''internalCreateCallback'', Fn ''createCallbackHandler''),
               (''internalRemoveCallback'', Fn ''removeCallbackHandler'')],
      elems = []\<rparr>"

text \<open>The two assignments of lines 64-65 and 76-77.\<close>

definition set_hooks :: "jsval \<Rightarrow> js_state \<Rightarrow> js_state option" where
  "set_hooks c s =
     do {
       s1 \<leftarrow> set_prop c ''internalCreateCallback'' (Fn ''createCallbackHandler'') s;
       set_prop c ''internalRemoveCallback'' (Fn ''removeCallbackHandler'') s1
     }"

text \<open>\<^verbatim>\<open>children.forEach(f)\<close>: \<open>f\<close> on each element in turn, stopping at a throw.\<close>

fun forEach :: "('a \<Rightarrow> js_state \<Rightarrow> js_state option) \<Rightarrow> 'a list \<Rightarrow> js_state \<Rightarrow> js_state option" where
  "forEach f [] s = Some s"
| "forEach f (x # xs) s = (case f x s of None \<Rightarrow> None | Some s1 \<Rightarrow> forEach f xs s1)"

text \<open>
  Lines 51-89: the four branches that settle \<^verbatim>\<open>children\<close> and \<^verbatim>\<open>config\<close>. The
  result is the pair as it stands at line 90, with the state.
\<close>

definition resolve_args :: "jsval \<Rightarrow> jsval \<Rightarrow> js_state \<Rightarrow> (jsval \<times> jsval \<times> js_state) option" where
  "resolve_args children0 config0 s =
     (if \<not> truthy children0 \<and> \<not> truthy config0 then
        (case alloc hooks_literal s of (a, s1) \<Rightarrow> Some (children0, Ref a, s1))
      else if IsPlainObject (heap s) children0 then
        do {
          s1 \<leftarrow> set_hooks children0 s;
          Some (Null, children0, s1)
        }
      else if isArray (heap s) children0 \<and> IsPlainObject (heap s) (first_elem (heap s) children0) then
        do {
          s1 \<leftarrow> forEach set_hooks (array_elems (heap s) children0) s;
          Some (Null, first_elem (heap s) children0, s1)
        }
      else
        (case alloc hooks_literal s of (a, s1) \<Rightarrow> Some (children0, Ref a, s1)))"

text \<open>
  Lines 131-157: each line of the defaults literal has the shape
  \<^verbatim>\<open>setter: GetFastValue(config, 'field', undefined)\<close>. The table lists the pairs
  (setter, field) line by line.
\<close>

definition defaults_table :: "(string \<times> string) list" where
  "defaults_table =
     [(''setCollideWorldBounds'', ''collideWorldBounds''),
      (''setBoundsRectangle'', ''customBoundsRectangle''),
      (''setAccelerationX'', ''accelerationX''),
      (''setAccelerationY'', ''accelerationY''),
      (''setAllowDrag'', ''allowDrag''),
      (''setAllowGravity'', ''allowGravity''),
      (''setAllowRotation'', ''allowRotation''),
      (''setBounceX'', ''bounceX''),
      (''setBounceY'', ''bounceY''),
      (''setDragX'', ''dragX''),
      (''setDragY'', ''dragY''),
      (''setEnable'', ''enable''),
      (''setGravityX'', ''gravityX''),
      (''setGravityY'', ''gravityY''),
      (''setFrictionX'', ''frictionX''),
      (''setFrictionY'', ''frictionY''),
      (''setMaxVelocityX'', ''maxVelocityX''),
      (''setMaxVelocityY'', ''maxVelocityY''),
      (''setVelocityX'', ''velocityX''),
      (''setVelocityY'', ''velocityY''),
      (''setAngularVelocity'', ''angularVelocity''),
      (''setAngularAcceleration'', ''angularAcceleration''),
      (''setAngularDrag'', ''angularDrag''),
      (''setMass'', ''mass''),
      (''setImmovable'', ''immovable'')]"

definition build_defaults :: "obj list \<Rightarrow> jsval \<Rightarrow> (string \<times> jsval) list" where
  "build_defaults h config =
     map (\<lambda>(setter, field). (setter, GetFastValue h config field Undefined)) defaults_table"

text \<open>
  The constructor, lines 49-171. \<open>this\<close> is the object under construction. The call
  \<^verbatim>\<open>Group.call(this, scene, children, config)\<close> of line 159 is recorded with its
  arguments; what the base constructor does is not in this file.
\<close>

definition initialize ::
  "physics_group \<Rightarrow> jsval \<Rightarrow> jsval \<Rightarrow> jsval \<Rightarrow> jsval \<Rightarrow> js_state \<Rightarrow> (physics_group \<times> js_state) option" where
  "initialize this world0 scene children0 config0 s =
     do {
       (children1, config1, s1) \<leftarrow> resolve_args children0 config0 s;
       let this1 = this\<lparr>world := world0\<rparr>;
       s2 \<leftarrow> set_prop config1 ''classType''
              (GetFastValue (heap s1) config1 ''classType'' (Fn ''ArcadeSprite'')) s1;
       let this2 = this1\<lparr>physicsType := DYNAMIC_BODY\<rparr>;
       let this3 = this2\<lparr>defaults := build_defaults (heap s2) config1\<rparr>;
       let s3 = s2\<lparr>trace := trace s2 @ [GroupCall scene children1 config1]\<rparr>;
       Some (this3\<lparr>gtype := ''PhysicsGroup''\<rparr>, s3)
     }"

subsection \<open>The collaborators of the hooks\<close>

text \<open>
  Modelled from the spec: \<^verbatim>\<open>World.enableBody\<close> (the simulation world is not among the
  sources). The call is synchronous and succeeds: the entity now has a Body. A Body has a
  velocity vector with X and Y components. Calling the method on something that is not a
  World is a \<^verbatim>\<open>TypeError\<close>.
\<close>

definition enableBody :: "jsval \<Rightarrow> jsval \<Rightarrow> body_type \<Rightarrow> js_state \<Rightarrow> js_state option" where
  "enableBody w object ty s =
     (if is_instance (heap s) w ''World'' then
        (case alloc \<lparr>cls = Instance ''Vector2'', props = [(''x'', Num dzero), (''y'', Num dzero)], elems = []\<rparr> s of
           (v, s1) \<Rightarrow>
             (case alloc \<lparr>cls = Instance ''Body'', props = [(''velocity'', Ref v)], elems = []\<rparr> s1 of
                (b, s2) \<Rightarrow>
                  do {
                    s3 \<leftarrow> set_prop object ''body'' (Ref b) s2;
                    Some (s3\<lparr>trace := trace s3 @ [EnableBody w object ty]\<rparr>)
                  }))
      else None)"

text \<open>
  Modelled from the spec: \<^verbatim>\<open>World.disableBody\<close> (not among the sources). The request
  for detachment is recorded; the world's own bookkeeping is outside this file.
\<close>

definition disableBody :: "jsval \<Rightarrow> jsval \<Rightarrow> js_state \<Rightarrow> js_state option" where
  "disableBody w object s =
     (if is_instance (heap s) w ''World''
      then Some (s\<lparr>trace := trace s @ [DisableBody w object]\<rparr>)
      else None)"

text \<open>
  Modelled from the spec: the setters of a Body (\<^verbatim>\<open>Body\<close> is not among the sources).
  A Body exposes one setter per key of the defaults table, each taking one value and
  overwriting the part of the body state it stands for; the model keeps that part under
  the name of the configuration field. \<^verbatim>\<open>body[key](val)\<close> is a \<^verbatim>\<open>TypeError\<close> when
  \<^verbatim>\<open>body\<close> is not a Body or has no method \<^verbatim>\<open>key\<close>.
\<close>

definition call_setter :: "jsval \<Rightarrow> string \<Rightarrow> jsval \<Rightarrow> js_state \<Rightarrow> js_state option" where
  "call_setter body key val s =
     (if is_instance (heap s) body ''Body'' then
        (case map_of defaults_table key of
           Some field \<Rightarrow>
             do {
               s1 \<leftarrow> set_prop body field val s;
               Some (s1\<lparr>trace := trace s1 @ [BodySetter body key val]\<rparr>)
             }
         | None \<Rightarrow> None)
      else None)"

text \<open>
  Modelled from the spec: \<^verbatim>\<open>Vector2.set\<close> (not among the sources): the velocity is a
  vector whose X and Y components are set independently.
\<close>

definition vector_set :: "jsval \<Rightarrow> double \<Rightarrow> double \<Rightarrow> js_state \<Rightarrow> js_state option" where
  "vector_set v x y s =
     (if is_instance (heap s) v ''Vector2'' then
        do {
          s1 \<leftarrow> set_prop v ''x'' (Num x) s;
          set_prop v ''y'' (Num y) s1
        }
      else None)"

text \<open>
  Modelled from the spec: \<^verbatim>\<open>getChildren\<close> of the base \<^verbatim>\<open>Group\<close> (not among the
  sources) returns the current ordered member sequence.
\<close>

definition getChildren :: "physics_group \<Rightarrow> jsval list" where
  "getChildren this = children this"

subsection \<open>The hooks\<close>

text \<open>The loop of lines 190-198 over the keys of \<^verbatim>\<open>this.defaults\<close>.\<close>

fun apply_defaults :: "jsval \<Rightarrow> (string \<times> jsval) list \<Rightarrow> js_state \<Rightarrow> js_state option" where
  "apply_defaults body [] s = Some s"
| "apply_defaults body ((key, val) # rest) s =
     (if val \<noteq> Undefined
      then do { s1 \<leftarrow> call_setter body key val s; apply_defaults body rest s1 }
      else apply_defaults body rest s)"

text \<open>Lines 181-199. The hook has no \<^verbatim>\<open>return\<close>: its value is \<^verbatim>\<open>undefined\<close>.\<close>

definition createCallbackHandler :: "physics_group \<Rightarrow> jsval \<Rightarrow> js_state \<Rightarrow> (jsval \<times> js_state) option" where
  "createCallbackHandler this child s =
     do {
       b \<leftarrow> get_prop (heap s) child ''body'';
       s1 \<leftarrow> (if \<not> truthy b then enableBody (world this) child DYNAMIC_BODY s else Some s);
       body \<leftarrow> get_prop (heap s1) child ''body'';
       s2 \<leftarrow> apply_defaults body (defaults this) s1;
       Some (Undefined, s2)
     }"

text \<open>Lines 209-215.\<close>

definition removeCallbackHandler :: "physics_group \<Rightarrow> jsval \<Rightarrow> js_state \<Rightarrow> (jsval \<times> js_state) option" where
  "removeCallbackHandler this child s =
     do {
       b \<leftarrow> get_prop (heap s) child ''body'';
       s1 \<leftarrow> (if truthy b then disableBody (world this) child s else Some s);
       Some (Undefined, s1)
     }"

subsection \<open>The bulk velocity setters\<close>

text \<open>
  Lines 229-241. The arguments are numbers; an omitted \<^verbatim>\<open>step\<close> is \<open>None\<close>. The loop
  runs over the sequence \<^verbatim>\<open>getChildren\<close> returned, by index; the counter enters the
  arithmetic of line 237 as the double \<open>of_index i\<close>.
\<close>

function setVelocity_loop :: "jsval list \<Rightarrow> nat \<Rightarrow> double \<Rightarrow> double \<Rightarrow> double \<Rightarrow> js_state \<Rightarrow> js_state option" where
  "setVelocity_loop items i x y step s =
     (if i < length items then
        do {
          body \<leftarrow> get_prop (heap s) (items ! i) ''body'';
          velocity \<leftarrow> get_prop (heap s) body ''velocity'';
          s1 \<leftarrow> vector_set velocity (dadd x (dmul (of_index i) step)) (dadd y (dmul (of_index i) step)) s;
          setVelocity_loop items (Suc i) x y step s1
        }
      else Some s)"
  by pat_completeness auto
termination
  by (relation "measure (\<lambda>(items, i, x, y, step, s). length items - i)") auto

definition setVelocity :: "physics_group \<Rightarrow> double \<Rightarrow> double \<Rightarrow> double option \<Rightarrow> js_state \<Rightarrow> (physics_group \<times> js_state) option" where
  "setVelocity this x y step s =
     (let step1 = (case step of None \<Rightarrow> dzero | Some t \<Rightarrow> t);
          items = getChildren this
      in do {
           s1 \<leftarrow> setVelocity_loop items 0 x y step1 s;
           Some (this, s1)
         })"

text \<open>Lines 254-266.\<close>

function setVelocityX_loop :: "jsval list \<Rightarrow> nat \<Rightarrow> double \<Rightarrow> double \<Rightarrow> js_state \<Rightarrow> js_state option" where
  "setVelocityX_loop items i val step s =
     (if i < length items then
        do {
          body \<leftarrow> get_prop (heap s) (items ! i) ''body'';
          velocity \<leftarrow> get_prop (heap s) body ''velocity'';
          s1 \<leftarrow> set_prop velocity ''x'' (Num (dadd val (dmul (of_index i) step))) s;
          setVelocityX_loop items (Suc i) val step s1
        }
      else Some s)"
  by pat_completeness auto
termination
  by (relation "measure (\<lambda>(items, i, val, step, s). length items - i)") auto

definition setVelocityX :: "physics_group \<Rightarrow> double \<Rightarrow> double option \<Rightarrow> js_state \<Rightarrow> (physics_group \<times> js_state) option" where
  "setVelocityX this val step s =
     (let step1 = (case step of None \<Rightarrow> dzero | Some t \<Rightarrow> t);
          items = getChildren this
      in do {
           s1 \<leftarrow> setVelocityX_loop items 0 val step1 s;
           Some (this, s1)
         })"

section \<open>Notions used in the statements\<close>

text \<open>A value that refers to an object of the store.\<close>

definition is_object :: "obj list \<Rightarrow> jsval \<Rightarrow> bool" where
  "is_object h v = (case v of Ref a \<Rightarrow> a < length h | _ \<Rightarrow> False)"

text \<open>
  The entries of a defaults table whose value is not \<^verbatim>\<open>undefined\<close>, in the table's
  order, and the setter calls they stand for on a given body.
\<close>

definition defined_entries :: "(string \<times> jsval) list \<Rightarrow> (string \<times> jsval) list" where
  "defined_entries ds = filter (\<lambda>(key, val). val \<noteq> Undefined) ds"

definition setter_calls :: "jsval \<Rightarrow> (string \<times> jsval) list \<Rightarrow> event list" where
  "setter_calls body ds = map (\<lambda>(key, val). BodySetter body key val) (defined_entries ds)"

text \<open>Every defined entry names a setter that a Body has.\<close>

definition known_setters :: "(string \<times> jsval) list \<Rightarrow> bool" where
  "known_setters ds = list_all (\<lambda>(key, val). map_of defaults_table key \<noteq> None) (defined_entries ds)"

text \<open>The body fields that a pass over a defaults table writes.\<close>

definition fields_of :: "(string \<times> jsval) list \<Rightarrow> string set" where
  "fields_of ds = set (List.map_filter (\<lambda>(key, val). map_of defaults_table key) (defined_entries ds))"

text \<open>The setter calls of a trace, and the setters they name.\<close>

fun is_setter_call :: "event \<Rightarrow> bool" where
  "is_setter_call (BodySetter body key val) = True"
| "is_setter_call e = False"

definition setter_events :: "event list \<Rightarrow> event list" where
  "setter_events tr = filter is_setter_call tr"

fun setter_keys :: "event list \<Rightarrow> string list" where
  "setter_keys [] = []"
| "setter_keys (BodySetter body key val # tr) = key # setter_keys tr"
| "setter_keys (e # tr) = setter_keys tr"

text \<open>
  The shapes of the constructor's arguments: no children and no configuration; a
  configuration record in place of the children; an array of entities (instances of a
  class); a non-empty array of configuration records.
\<close>

definition is_entity :: "obj list \<Rightarrow> jsval \<Rightarrow> bool" where
  "is_entity h v =
     (case v of
        Ref a \<Rightarrow> a < length h \<and> (case cls (h ! a) of Instance c \<Rightarrow> True | _ \<Rightarrow> False)
      | _ \<Rightarrow> False)"

definition shape_none :: "jsval \<Rightarrow> jsval \<Rightarrow> bool" where
  "shape_none children0 config0 = (\<not> truthy children0 \<and> \<not> truthy config0)"

definition shape_config_record :: "obj list \<Rightarrow> jsval \<Rightarrow> bool" where
  "shape_config_record h children0 = IsPlainObject h children0"

definition shape_entity_array :: "obj list \<Rightarrow> jsval \<Rightarrow> bool" where
  "shape_entity_array h children0 =
     (isArray h children0 \<and> list_all (is_entity h) (array_elems h children0))"

definition shape_config_array :: "obj list \<Rightarrow> jsval \<Rightarrow> bool" where
  "shape_config_array h children0 =
     (isArray h children0 \<and> array_elems h children0 \<noteq> []
      \<and> list_all (IsPlainObject h) (array_elems h children0))"

definition supported_shape :: "obj list \<Rightarrow> jsval \<Rightarrow> jsval \<Rightarrow> bool" where
  "supported_shape h children0 config0 =
     (shape_none children0 config0 \<or> shape_config_record h children0
      \<or> shape_entity_array h children0 \<or> shape_config_array h children0)"

text \<open>The object has a property of its own under the key.\<close>

definition has_own :: "obj list \<Rightarrow> jsval \<Rightarrow> string \<Rightarrow> bool" where
  "has_own h v k = (case v of Ref a \<Rightarrow> a < length h \<and> k \<in> fst ` set (props (h ! a)) | _ \<Rightarrow> False)"

text \<open>
  The configuration records the caller supplies in place of the children, and the one
  of them the constructor adopts as the configuration.
\<close>

definition supplied_records :: "obj list \<Rightarrow> jsval \<Rightarrow> jsval list" where
  "supplied_records h children0 = (if IsPlainObject h children0 then [children0] else array_elems h children0)"

definition adopted_config :: "obj list \<Rightarrow> jsval \<Rightarrow> jsval" where
  "adopted_config h children0 = (if IsPlainObject h children0 then children0 else first_elem h children0)"

text \<open>
  The velocity vector of a member, read as the bulk setters read it
  (\<^verbatim>\<open>item.body.velocity\<close>), and its two components. A member is in order when it
  has a body whose velocity is a vector.
\<close>

definition velocity_of :: "obj list \<Rightarrow> jsval \<Rightarrow> jsval option" where
  "velocity_of h item = do { body \<leftarrow> get_prop h item ''body''; get_prop h body ''velocity'' }"

definition velocity_xy :: "obj list \<Rightarrow> jsval \<Rightarrow> (jsval \<times> jsval) option" where
  "velocity_xy h item =
     do { v \<leftarrow> velocity_of h item; x \<leftarrow> get_prop h v ''x''; y \<leftarrow> get_prop h v ''y''; Some (x, y) }"

definition member_ok :: "obj list \<Rightarrow> jsval \<Rightarrow> bool" where
  "member_ok h item = (case velocity_of h item of Some v \<Rightarrow> is_instance h v ''Vector2'' | None \<Rightarrow> False)"

section \<open>Example stores\<close>

text \<open>
  A store with a world (address 0), a sprite without a body (1), a sprite with a body
  (2, its body at 4 with the velocity vector at 3), a configuration record (5), the
  array of the two sprites (6), a configuration record that brings a creation hook and a
  class of its own (7), and the array of the two configuration records (8).
\<close>

definition ex_heap :: "obj list" where
  "ex_heap =
     [\<lparr>cls = Instance ''World'', props = [], elems = []\<rparr>,
      \<lparr>cls = Instance ''Sprite'', props = [(''body'', Null)], elems = []\<rparr>,
      \<lparr>cls = Instance ''Sprite'', props = [(''body'', Ref 4)], elems = []\<rparr>,
      \<lparr>cls = Instance ''Vector2'', props = [(''x'', Num (num 0)), (''y'', Num (num 0))], elems = []\<rparr>,
      \<lparr>cls = Instance ''Body'', props = [(''velocity'', Ref 3)], elems = []\<rparr>,
      \<lparr>cls = PlainObject,
       props = [(''velocityX'', Num (num 100)), (''customBoundsRectangle'', Ref 0), (''collideWorldBounds'', Bool True)],
       elems = []\<rparr>,
      \<lparr>cls = Array, props = [], elems = [Ref 1, Ref 2]\<rparr>,
      \<lparr>cls = PlainObject,
       props = [(''internalCreateCallback'', Fn ''userHook''), (''classType'', Fn ''Ship''), (''mass'', Num (num 2))],
       elems = []\<rparr>,
      \<lparr>cls = Array, props = [], elems = [Ref 5, Ref 7]\<rparr>]"

definition ex_state :: js_state where
  "ex_state = \<lparr>heap = ex_heap, trace = []\<rparr>"

definition ex_group :: physics_group where
  "ex_group =
     \<lparr>world = Ref 0, physicsType = DYNAMIC_BODY, defaults = build_defaults ex_heap (Ref 5),
      gtype = ''PhysicsGroup'', children = [Ref 2]\<rparr>"

text \<open>A group object before its constructor has run.\<close>

definition new_group :: physics_group where
  "new_group =
     \<lparr>world = Undefined, physicsType = STATIC_BODY, defaults = [], gtype = [], children = []\<rparr>"

text \<open>
  The example store after the constructor has run on the configuration record at 5.
\<close>

definition ex_built_state :: js_state where
  "ex_built_state =
     \<lparr>heap = ex_heap[5 :=
         \<lparr>cls = PlainObject,
          props = [(''velocityX'', Num (num 100)), (''customBoundsRectangle'', Ref 0), (''collideWorldBounds'', Bool True),
                   (''internalCreateCallback'', Fn ''createCallbackHandler''),
                   (''internalRemoveCallback'', Fn ''removeCallbackHandler''),
                   (''classType'', Fn ''ArcadeSprite'')],
          elems = []\<rparr>],
      trace = [GroupCall Null Null (Ref 5)]\<rparr>"

text \<open>
  A configuration record that sets every field the defaults table reads, in a store with
  a world (0) and the record (1).
\<close>

definition full_config :: obj where
  "full_config =
     \<lparr>cls = PlainObject,
      props = [(''collideWorldBounds'', Bool True), (''customBoundsRectangle'', Ref 0),
               (''accelerationX'', Num (num 1)), (''accelerationY'', Num (num 2)),
               (''allowDrag'', Bool True), (''allowGravity'', Bool False), (''allowRotation'', Bool True),
               (''bounceX'', Num (num 3)), (''bounceY'', Num (num 4)), (''dragX'', Num (num 5)), (''dragY'', Num (num 6)),
               (''enable'', Bool True), (''gravityX'', Num (num 7)), (''gravityY'', Num (num 8)),
               (''frictionX'', Num (num 9)), (''frictionY'', Num (num 10)),
               (''maxVelocityX'', Num (num 11)), (''maxVelocityY'', Num (num 12)),
               (''velocityX'', Num (num 13)), (''velocityY'', Num (num 14)),
               (''angularVelocity'', Num (num 15)), (''angularAcceleration'', Num (num 16)), (''angularDrag'', Num (num 17)),
               (''mass'', Num (num 18)), (''immovable'', Bool False)],
      elems = []\<rparr>"

definition full_state :: js_state where
  "full_state = \<lparr>heap = [\<lparr>cls = Instance ''World'', props = [], elems = []\<rparr>, full_config], trace = []\<rparr>"

text \<open>
  Three sprites (0, 3, 6), each with a body of its own (1, 4, 7) whose velocity is a
  vector of its own (2, 5, 8), and the group that has them as members.
\<close>

definition vel_state :: js_state where
  "vel_state =
     \<lparr>heap =
        [\<lparr>cls = Instance ''Sprite'', props = [(''body'', Ref 1)], elems = []\<rparr>,
         \<lparr>cls = Instance ''Body'', props = [(''velocity'', Ref 2), (''mass'', Num (num 1))], elems = []\<rparr>,
         \<lparr>cls = Instance ''Vector2'', props = [(''x'', Num (num 1)), (''y'', Num (num 2))], elems = []\<rparr>,
         \<lparr>cls = Instance ''Sprite'', props = [(''body'', Ref 4)], elems = []\<rparr>,
         \<lparr>cls = Instance ''Body'', props = [(''velocity'', Ref 5), (''mass'', Num (num 1))], elems = []\<rparr>,
         \<lparr>cls = Instance ''Vector2'', props = [(''x'', Num (num 3)), (''y'', Num (num 4))], elems = []\<rparr>,
         \<lparr>cls = Instance ''Sprite'', props = [(''body'', Ref 7)], elems = []\<rparr>,
         \<lparr>cls = Instance ''Body'', props = [(''velocity'', Ref 8), (''mass'', Num (num 1))], elems = []\<rparr>,
         \<lparr>cls = Instance ''Vector2'', props = [(''x'', Num (num 5)), (''y'', Num (num 6))], elems = []\<rparr>],
      trace = []\<rparr>"

definition vel_group :: physics_group where
  "vel_group =
     \<lparr>world = Undefined, physicsType = DYNAMIC_BODY, defaults = [], gtype = ''PhysicsGroup'',
      children = [Ref 0, Ref 3, Ref 6]\<rparr>"

section \<open>Lemmas: numbers\<close>

lemma pack_finite: "e \<le> 971 \<Longrightarrow> \<exists>m' e'. pack neg m e = Finite m' e'"
  by (simp add: pack_def dzero_def)

lemma round_d_finite:
  assumes "E + max (bitlen \<bar>M\<bar> - 53) (- 1074 - E) + 1 \<le> 971"
  shows "\<exists>m e. round_d M E = Finite m e"
proof (cases "M = 0")
  case True
  have "round_d 0 E = dzero" unfolding round_d_def by (simp only: simp_thms if_True)
  with True show ?thesis by (simp only: dzero_def) blast
next
  case False
  define k where "k = max (bitlen \<bar>M\<bar> - 53) (- 1074 - E)"
  define q1 where "q1 = (if \<bar>M\<bar> mod 2 ^ nat k > 2 ^ nat (k - 1)
        \<or> (\<bar>M\<bar> mod 2 ^ nat k = 2 ^ nat (k - 1) \<and> odd (\<bar>M\<bar> div 2 ^ nat k))
      then \<bar>M\<bar> div 2 ^ nat k + 1 else \<bar>M\<bar> div 2 ^ nat k)"
  from assms have b1: "E + k \<le> 971" and b2: "E + k + 1 \<le> 971" unfolding k_def by linarith+
  have r: "round_d M E =
     (if k \<le> 0 then pack (M < 0) (\<bar>M\<bar> * 2 ^ nat (- k)) (E + k)
      else if q1 = 2 ^ 53 then pack (M < 0) (2 ^ 52) (E + k + 1) else pack (M < 0) q1 (E + k))"
    unfolding round_d_def Let_def k_def q1_def by (simp only: False if_False)
  show ?thesis
  proof (cases "k \<le> 0")
    case True
    have "round_d M E = pack (M < 0) (\<bar>M\<bar> * 2 ^ nat (- k)) (E + k)"
      by (simp only: r True if_True)
    then show ?thesis by (metis pack_finite[OF b1])
  next
    case k: False
    show ?thesis
    proof (cases "q1 = 2 ^ 53")
      case True
      have "round_d M E = pack (M < 0) (2 ^ 52) (E + k + 1)"
        by (simp only: r k True if_True if_False simp_thms)
      then show ?thesis by (metis pack_finite[OF b2])
    next
      case False
      have "round_d M E = pack (M < 0) q1 (E + k)"
        by (simp only: r k False if_False simp_thms)
      then show ?thesis by (metis pack_finite[OF b1])
    qed
  qed
qed

text \<open>
  Rounding gives a double in the one form of a double, and so do the literals, the
  counter, the product, and the sum of two doubles.
\<close>

lemma is_double_pack:
  assumes "0 \<le> m" and "m < 2 ^ 53" and "- 1074 \<le> e" and "2 ^ 52 \<le> m \<or> e = - 1074 \<or> m = 0"
  shows "is_double (pack neg m e)"
  using assms by (auto simp: pack_def is_double_def dzero_def)

lemma bitlen_nat_bounds:
  assumes "0 < a"
  obtains n where "bitlen a = int (Suc n)" and "2 ^ n \<le> a" and "a < 2 ^ Suc n"
proof -
  from bitlen_bounds[OF assms] have b: "2 ^ nat (bitlen a - 1) \<le> a" "a < 2 ^ nat (bitlen a)" by simp_all
  have "1 \<le> bitlen a" using assms bitlen_eq_zero_iff[of a] bitlen_nonneg[of a] by linarith
  then have e: "bitlen a = int (Suc (nat (bitlen a - 1)))" by simp
  then have "nat (bitlen a) = Suc (nat (bitlen a - 1))" by linarith
  with b have "a < 2 ^ Suc (nat (bitlen a - 1))" by simp
  with e b(1) that show ?thesis by blast
qed

lemma round_d_is_double: "is_double (round_d M E)"
proof (cases "M = 0")
  case True
  have "round_d 0 E = dzero" unfolding round_d_def by (simp only: simp_thms if_True)
  with True show ?thesis by (simp add: is_double_def dzero_def)
next
  case False
  define a where "a = \<bar>M\<bar>"
  have apos: "0 < a" using False by (simp add: a_def)
  from bitlen_nat_bounds[OF apos] obtain n where
    n: "bitlen a = int (Suc n)" and lo: "2 ^ n \<le> a" and hi: "a < 2 ^ Suc n" by blast
  define k where "k = max (bitlen a - 53) (- 1074 - E)"
  define q1 where "q1 = (if a mod 2 ^ nat k > 2 ^ nat (k - 1)
        \<or> (a mod 2 ^ nat k = 2 ^ nat (k - 1) \<and> odd (a div 2 ^ nat k))
      then a div 2 ^ nat k + 1 else a div 2 ^ nat k)"
  have r: "round_d M E =
     (if k \<le> 0 then pack (M < 0) (a * 2 ^ nat (- k)) (E + k)
      else if q1 = 2 ^ 53 then pack (M < 0) (2 ^ 52) (E + k + 1) else pack (M < 0) q1 (E + k))"
    unfolding round_d_def Let_def k_def q1_def a_def by (simp only: False if_False)
  have k1: "int (Suc n) - 53 \<le> k" and k2: "- 1074 - E \<le> k" unfolding k_def n by simp_all
  have kc: "k = int (Suc n) - 53 \<or> k = - 1074 - E" unfolding k_def n by (simp add: max_def)
  show ?thesis
  proof (cases "k \<le> 0")
    case True
    define j where "j = nat (- k)"
    have jk: "int j = - k" using True by (simp add: j_def)
    have jn: "Suc n + j \<le> 53" using k1 jk by linarith
    have "a * 2 ^ j < 2 ^ Suc n * 2 ^ j" using hi by simp
    also have "\<dots> = 2 ^ (Suc n + j)" by (simp add: power_add)
    also have "\<dots> \<le> (2::int) ^ 53" using jn by (intro power_increasing) simp_all
    finally have m53: "a * 2 ^ j < 2 ^ 53" .
    have m0: "0 \<le> a * 2 ^ j" using apos by simp
    have norm: "2 ^ 52 \<le> a * 2 ^ j \<or> E + k = - 1074 \<or> a * 2 ^ j = 0"
    proof (cases "k = int (Suc n) - 53")
      case True
      then have "n + j = 52" using jk by linarith
      then have "(2::int) ^ 52 = 2 ^ n * 2 ^ j" by (simp add: power_add[symmetric])
      also have "\<dots> \<le> a * 2 ^ j" using lo by simp
      finally show ?thesis by simp
    next
      case False
      with kc have "k = - 1074 - E" by simp
      then show ?thesis by simp
    qed
    have e: "- 1074 \<le> E + k" using k2 by simp
    have "round_d M E = pack (M < 0) (a * 2 ^ j) (E + k)" by (simp only: r True if_True j_def)
    with is_double_pack[OF m0 m53 e norm] show ?thesis by simp
  next
    case kpos: False
    define j where "j = nat k"
    have jk: "int j = k" using kpos by (simp add: j_def)
    have jn: "Suc n \<le> j + 53" using k1 jk by linarith
    define q where "q = a div 2 ^ j"
    have q0: "0 \<le> q" using apos by (simp add: q_def pos_imp_zdiv_nonneg_iff)
    have "a < 2 ^ Suc n" by (rule hi)
    also have "\<dots> \<le> (2::int) ^ (j + 53)" using jn by (intro power_increasing) simp_all
    finally have ab: "a < 2 ^ 53 * 2 ^ j" by (simp add: power_add mult.commute)
    have "a = q * 2 ^ j + a mod 2 ^ j" unfolding q_def by (rule div_mult_mod_eq[symmetric])
    moreover have "0 \<le> a mod 2 ^ j" by simp
    ultimately have qa: "q * 2 ^ j \<le> a" by linarith
    have q53: "q < 2 ^ 53"
    proof (rule ccontr)
      assume "\<not> q < 2 ^ 53"
      then have "2 ^ 53 * 2 ^ j \<le> q * (2::int) ^ j" by (intro mult_right_mono) simp_all
      with qa ab show False by linarith
    qed
    have q1c: "q1 = q \<or> q1 = q + 1" unfolding q1_def q_def j_def by simp
    have e: "- 1074 \<le> E + k" using k2 by simp
    have e1: "- 1074 \<le> E + k + 1" using k2 by simp
    show ?thesis
    proof (cases "q1 = 2 ^ 53")
      case True
      have "round_d M E = pack (M < 0) (2 ^ 52) (E + k + 1)"
        by (simp only: r kpos True if_True if_False simp_thms)
      moreover have "is_double (pack (M < 0) (2 ^ 52) (E + k + 1))"
        by (rule is_double_pack) (use e1 in simp_all)
      ultimately show ?thesis by simp
    next
      case False
      have rr: "round_d M E = pack (M < 0) q1 (E + k)"
        by (simp only: r kpos False if_False simp_thms)
      have a0: "0 \<le> q1" using q1c q0 by auto
      have a1: "q1 < 2 ^ 53" using q1c q53 False by auto
      have norm: "2 ^ 52 \<le> q1 \<or> E + k = - 1074 \<or> q1 = 0"
      proof (cases "k = int (Suc n) - 53")
        case True
        then have "n = j + 52" using jk by linarith
        then have "(2::int) ^ 52 * 2 ^ j = 2 ^ n" by (simp add: power_add mult.commute)
        also have "\<dots> \<le> a" by (rule lo)
        finally have "(2 ^ 52 * 2 ^ j) div 2 ^ j \<le> a div (2::int) ^ j" by (intro zdiv_mono1) simp_all
        then have "2 ^ 52 \<le> q" unfolding q_def by simp
        with q1c show ?thesis by auto
      next
        case False
        with kc have "k = - 1074 - E" by simp
        then show ?thesis by simp
      qed
      from is_double_pack[OF a0 a1 e norm] rr show ?thesis by simp
    qed
  qed
qed

lemma is_double_special:
  "is_double NaN" "is_double PosInf" "is_double NegInf" "is_double dzero"
  by (simp_all add: is_double_def dzero_def)

lemma num_is_double: "is_double (num k)"
  unfolding num_def by (rule round_d_is_double)

lemma of_index_is_double: "is_double (of_index i)"
  unfolding of_index_def by (rule round_d_is_double)

lemma dmul_is_double: "is_double (dmul x y)"
  by (cases x; cases y) (simp_all add: round_d_is_double is_double_special)

lemma dadd_is_double:
  assumes "is_double x" and "is_double y"
  shows "is_double (dadd x y)"
proof (cases x)
  case fx: (Finite m1 e1)
  show ?thesis
  proof (cases y)
    case fy: (Finite m2 e2)
    show ?thesis
    proof (cases "m2 = 0")
      case True
      with fx fy have "dadd x y = x" by simp
      with assms(1) show ?thesis by simp
    next
      case m2: False
      show ?thesis
      proof (cases "m1 = 0")
        case True
        with m2 fx fy have "dadd x y = y" by simp
        with assms(2) show ?thesis by simp
      next
        case False
        with m2 fx fy have "dadd x y =
          round_d (m1 * 2 ^ nat (e1 - min e1 e2) + m2 * 2 ^ nat (e2 - min e1 e2)) (min e1 e2)"
          by (simp add: Let_def)
        then show ?thesis by (simp only: round_d_is_double)
      qed
    qed
  qed (simp_all add: fx is_double_special)
qed (cases y; simp add: is_double_special)+

text \<open>The counter is a finite double.\<close>

lemma of_index_finite: "\<exists>m e. of_index i = Finite m e"
proof -
  let ?M = "int (min i (2 ^ 53))"
  have "\<bar>?M\<bar> < 2 ^ nat 54" by simp
  then have n: "bitlen \<bar>?M\<bar> \<le> 54" by (simp only: bitlen_le_iff_power) simp
  have "0 + max (bitlen \<bar>?M\<bar> - 53) (- 1074 - 0) + 1 \<le> 971" using n by simp
  from round_d_finite[OF this] show ?thesis by (simp add: of_index_def)
qed

lemma dmul_finite_dzero: "dmul (Finite m e) dzero = dzero"
  by (simp add: dzero_def round_d_def)

lemma dadd_dzero: "dadd x dzero = x"
  by (cases x) (simp_all add: dzero_def)

text \<open>With a step of zero every member is given the base value itself.\<close>

lemma dadd_index_zero: "dadd val (dmul (of_index i) dzero) = val"
proof -
  from of_index_finite obtain m e where "of_index i = Finite m e" by blast
  then show ?thesis by (simp add: dmul_finite_dzero dadd_dzero)
qed

text \<open>
  The arithmetic rounds as doubles do: \<open>2 ^ 53 + 1 * 1\<close> is \<open>2 ^ 53\<close>,
  \<open>0.1 + 1 * 0.2\<close> is \<open>0.30000000000000004\<close>, a tie goes to the even
  mantissa, a product above the largest double is \<^verbatim>\<open>Infinity\<close>, and a product
  below the smallest normal double is rounded to a multiple of \<open>2 ^ - 1074\<close>.
\<close>

lemma dadd_rounds_to_even: "dadd (num (2 ^ 53)) (dmul (of_index 1) (num 1)) = num (2 ^ 53)"
  by (simp add: num_def of_index_def round_d_def pack_def Let_def compute_bitlen)

lemma dadd_tenth_fifth:
  "dadd (Finite 7205759403792794 (- 56)) (dmul (of_index 1) (Finite 7205759403792794 (- 55)))
     = Finite 5404319552844596 (- 54)"
  by (simp add: of_index_def round_d_def pack_def Let_def compute_bitlen)

lemma steps_example:
  "dadd (num 10) (dmul (of_index 0) (num 5)) = num 10"
  "dadd (num 20) (dmul (of_index 0) (num 5)) = num 20"
  "dadd (num 10) (dmul (of_index (Suc 0)) (num 5)) = num 15"
  "dadd (num 20) (dmul (of_index (Suc 0)) (num 5)) = num 25"
  "dadd (num 10) (dmul (of_index 2) (num 5)) = num 20"
  "dadd (num 20) (dmul (of_index 2) (num 5)) = num 30"
  by (simp_all add: num_def of_index_def round_d_def pack_def Let_def compute_bitlen dzero_def)

lemma steps_rounded:
  "dadd (num 9007199254740992) (dmul (of_index (Suc 0)) (num 1)) = num 9007199254740992"
  "dadd (num 0) (dmul (of_index (Suc 0)) (num 1)) = num 1"
  by (simp_all add: num_def of_index_def round_d_def pack_def Let_def compute_bitlen dzero_def)

lemma dadd_tie_to_even_up: "dadd (num (2 ^ 53 + 2)) (num 1) = num (2 ^ 53 + 4)"
  by (simp add: num_def round_d_def pack_def Let_def compute_bitlen)

lemma dmul_overflow: "dmul (Finite (2 ^ 53 - 1) 971) (num 2) = PosInf"
  by (simp add: num_def round_d_def pack_def Let_def compute_bitlen)

lemma dmul_subnormal: "dmul (Finite 3 (- 1074)) (Finite (2 ^ 52) (- 53)) = Finite 2 (- 1074)"
  by code_simp

lemma dmul_underflow: "dmul (Finite 1 (- 1074)) (Finite (2 ^ 52) (- 53)) = dzero"
  by code_simp

lemma dadd_cancel: "dadd (num 7) (Finite (- (2 ^ 52 + 2 ^ 51 + 2 ^ 50)) (- 50)) = dzero"
  by code_simp
section \<open>Lemmas: reading and writing the store\<close>

lemma is_object_length: "length h' = length h \<Longrightarrow> is_object h' v = is_object h v"
  by (simp add: is_object_def split: jsval.splits)

lemma set_prop_cases:
  assumes "set_prop v k x s = Some s'"
  shows "trace s' = trace s" and "length (heap s') = length (heap s)"
    and "cls (heap s' ! a) = cls (heap s ! a)" and "elems (heap s' ! a) = elems (heap s ! a)"
  using assms by (auto simp: set_prop_def nth_list_update split: jsval.splits if_splits)

lemma set_prop_is_instance:
  "set_prop v k x s = Some s' \<Longrightarrow> is_instance (heap s') u c = is_instance (heap s) u c"
  by (auto simp: set_prop_def is_instance_def nth_list_update split: jsval.splits if_splits)

lemma set_prop_object:
  "is_object (heap s) v \<Longrightarrow> \<exists>s'. set_prop v k x s = Some s'"
  by (auto simp: set_prop_def is_object_def split: jsval.splits)

lemma get_prop_set_prop:
  "set_prop v k x s = Some s' \<Longrightarrow>
   get_prop (heap s') u k' =
     (if u = v \<and> k' = k \<and> is_object (heap s) v then Some x else get_prop (heap s) u k')"
  by (auto simp: set_prop_def get_prop_def is_object_def nth_list_update update_conv'
      split: jsval.splits if_splits)

section \<open>Lemmas: the hooks\<close>

lemma call_setter_ok:
  assumes "is_instance (heap s) body ''Body''" and "map_of defaults_table key = Some field"
  shows "\<exists>s'. call_setter body key val s = Some s' \<and> trace s' = trace s @ [BodySetter body key val]"
  using assms by (auto simp: call_setter_def is_instance_def set_prop_def split: jsval.splits)

lemma call_setter_split:
  assumes "call_setter body key val s = Some s'"
  shows "\<exists>field s1. map_of defaults_table key = Some field \<and> is_instance (heap s) body ''Body''
           \<and> set_prop body field val s = Some s1
           \<and> s' = s1\<lparr>trace := trace s1 @ [BodySetter body key val]\<rparr>"
  using assms by (auto simp: call_setter_def split: if_splits option.splits bind_splits)

lemma call_setter_frame:
  assumes "call_setter body key val s = Some s'"
  shows "length (heap s') = length (heap s)"
    and "is_instance (heap s') u c = is_instance (heap s) u c"
    and "k \<notin> snd ` set defaults_table \<Longrightarrow> get_prop (heap s') u k = get_prop (heap s) u k"
    and "trace s' = trace s @ [BodySetter body key val]"
proof -
  from call_setter_split[OF assms] obtain field s1 where f: "map_of defaults_table key = Some field"
    and s1: "set_prop body field val s = Some s1"
    and s': "s' = s1\<lparr>trace := trace s1 @ [BodySetter body key val]\<rparr>"
    by blast
  show "length (heap s') = length (heap s)" using set_prop_cases(2)[OF s1] s' by simp
  show "is_instance (heap s') u c = is_instance (heap s) u c" using set_prop_is_instance[OF s1] s' by simp
  show "trace s' = trace s @ [BodySetter body key val]" using set_prop_cases(1)[OF s1] s' by simp
  show "get_prop (heap s') u k = get_prop (heap s) u k" if "k \<notin> snd ` set defaults_table"
  proof -
    from map_of_SomeD[OF f] have "field \<in> snd ` set defaults_table" by force
    with that have "k \<noteq> field" by auto
    then show ?thesis using get_prop_set_prop[OF s1] s' by simp
  qed
qed

text \<open>The loop over the defaults table, when every call it makes is possible.\<close>

lemma apply_defaults_run:
  assumes "is_instance (heap s) body ''Body''" and "known_setters ds"
  shows "\<exists>s'. apply_defaults body ds s = Some s' \<and> trace s' = trace s @ setter_calls body ds
            \<and> length (heap s') = length (heap s)
            \<and> (\<forall>u c. is_instance (heap s') u c = is_instance (heap s) u c)
            \<and> (\<forall>u k. k \<notin> snd ` set defaults_table \<longrightarrow> get_prop (heap s') u k = get_prop (heap s) u k)"
  using assms
proof (induction ds arbitrary: s)
  case Nil
  then show ?case by (simp add: setter_calls_def defined_entries_def)
next
  case (Cons p ds)
  obtain key val where p: "p = (key, val)" by (cases p)
  show ?case
  proof (cases "val = Undefined")
    case True
    with Cons p show ?thesis by (simp add: setter_calls_def defined_entries_def known_setters_def)
  next
    case False
    with Cons.prems p obtain field where f: "map_of defaults_table key = Some field"
      by (auto simp: known_setters_def defined_entries_def)
    from call_setter_ok[OF Cons.prems(1) f] obtain s1 where
      s1: "call_setter body key val s = Some s1" and t1: "trace s1 = trace s @ [BodySetter body key val]"
      by blast
    note fr = call_setter_frame[OF s1]
    have inst: "is_instance (heap s1) body ''Body''" using fr(2) Cons.prems(1) by simp
    have ks: "known_setters ds"
      using Cons.prems(2) p False by (simp add: known_setters_def defined_entries_def)
    from Cons.IH[OF inst ks] obtain s' where
      r: "apply_defaults body ds s1 = Some s'" "trace s' = trace s1 @ setter_calls body ds"
         "length (heap s') = length (heap s1)"
         "\<forall>u c. is_instance (heap s') u c = is_instance (heap s1) u c"
         "\<forall>u k. k \<notin> snd ` set defaults_table \<longrightarrow> get_prop (heap s') u k = get_prop (heap s1) u k"
      by blast
    have "apply_defaults body (p # ds) s = Some s'" using p False s1 r(1) by simp
    moreover have "trace s' = trace s @ setter_calls body (p # ds)"
      using r(2) t1 p False by (simp add: setter_calls_def defined_entries_def)
    ultimately show ?thesis using r(3,4,5) fr(1,2,3) by auto
  qed
qed

lemma body_not_field: "''body'' \<notin> snd ` set defaults_table"
  by (simp add: defaults_table_def)

lemma enableBody_run:
  assumes "is_instance (heap s) w ''World''" and "is_object (heap s) child"
  shows "\<exists>s'. enableBody w child ty s = Some s' \<and> trace s' = trace s @ [EnableBody w child ty]
           \<and> get_prop (heap s') child ''body'' = Some (Ref (Suc (length (heap s))))
           \<and> is_instance (heap s') (Ref (Suc (length (heap s)))) ''Body''"
  using assms
  by (auto simp: enableBody_def alloc_def set_prop_def get_prop_def is_object_def is_instance_def
        nth_append nth_list_update update_conv' split: jsval.splits)

lemma createCallbackHandler_run:
  assumes obj: "is_object (heap s) child"
    and b: "get_prop (heap s) child ''body'' = Some b"
    and has: "truthy b \<longrightarrow> is_instance (heap s) b ''Body''"
    and w: "\<not> truthy b \<longrightarrow> is_instance (heap s) (world this) ''World''"
    and ks: "known_setters (defaults this)"
  shows "\<exists>s' body. createCallbackHandler this child s = Some (Undefined, s')
           \<and> get_prop (heap s') child ''body'' = Some body
           \<and> is_instance (heap s') body ''Body''
           \<and> trace s' = trace s @ (if truthy b then [] else [EnableBody (world this) child DYNAMIC_BODY])
                           @ setter_calls body (defaults this)"
proof (cases "truthy b")
  case True
  with has have inst: "is_instance (heap s) b ''Body''" by simp
  from apply_defaults_run[OF inst ks] obtain s' where
    r: "apply_defaults b (defaults this) s = Some s'" "trace s' = trace s @ setter_calls b (defaults this)"
       "\<forall>u c. is_instance (heap s') u c = is_instance (heap s) u c"
       "\<forall>u k. k \<notin> snd ` set defaults_table \<longrightarrow> get_prop (heap s') u k = get_prop (heap s) u k"
    by blast
  have "createCallbackHandler this child s = Some (Undefined, s')"
    using True b r(1) by (simp add: createCallbackHandler_def)
  moreover have "get_prop (heap s') child ''body'' = Some b" using r(4) body_not_field b by simp
  moreover have "is_instance (heap s') b ''Body''" using r(3) inst by simp
  ultimately show ?thesis using True r(2) by auto
next
  case False
  with w have wi: "is_instance (heap s) (world this) ''World''" by simp
  let ?nb = "Ref (Suc (length (heap s)))"
  from enableBody_run[OF wi obj] obtain s1 where
    e: "enableBody (world this) child DYNAMIC_BODY s = Some s1"
       "trace s1 = trace s @ [EnableBody (world this) child DYNAMIC_BODY]"
       "get_prop (heap s1) child ''body'' = Some ?nb"
       "is_instance (heap s1) ?nb ''Body''"
    by blast
  from apply_defaults_run[OF e(4) ks] obtain s' where
    r: "apply_defaults ?nb (defaults this) s1 = Some s'"
       "trace s' = trace s1 @ setter_calls ?nb (defaults this)"
       "\<forall>u c. is_instance (heap s') u c = is_instance (heap s1) u c"
       "\<forall>u k. k \<notin> snd ` set defaults_table \<longrightarrow> get_prop (heap s') u k = get_prop (heap s1) u k"
    by blast
  have "createCallbackHandler this child s = Some (Undefined, s')"
    using False b e(1,3) r(1) by (simp add: createCallbackHandler_def)
  moreover have "get_prop (heap s') child ''body'' = Some ?nb" using r(4) body_not_field e(3) by simp
  moreover have "is_instance (heap s') ?nb ''Body''" using r(3) e(4) by simp
  ultimately show ?thesis using False r(2) e(2) by auto
qed

lemma ex_known_setters: "known_setters (defaults ex_group)"
  by (simp add: ex_group_def known_setters_def defined_entries_def build_defaults_def
      defaults_table_def GetFastValue_def ex_heap_def)

section \<open>Lemmas: applying the defaults table twice\<close>

lemma defaults_table_fields_distinct: "distinct (map snd defaults_table)"
  by (simp add: defaults_table_def)

lemma defaults_table_keys_distinct: "distinct (map fst defaults_table)"
  by (simp add: defaults_table_def)

lemma map_of_inj_on_distinct:
  "distinct (map snd xs) \<Longrightarrow> map_of xs k1 = Some f \<Longrightarrow> map_of xs k2 = Some f \<Longrightarrow> k1 = k2"
proof (induction xs)
  case Nil
  then show ?case by simp
next
  case (Cons p xs)
  obtain a b where p: "p = (a, b)" by (cases p)
  have notin: "\<And>k. map_of xs k = Some b \<Longrightarrow> False"
  proof -
    fix k assume "map_of xs k = Some b"
    from map_of_SomeD[OF this] have "b \<in> snd ` set xs" by force
    with Cons.prems(1) p show False by simp
  qed
  show ?case
  proof (cases "k1 = a")
    case True
    with Cons.prems(2) p have fb: "f = b" by simp
    show ?thesis
    proof (cases "k2 = a")
      case True
      with \<open>k1 = a\<close> show ?thesis by simp
    next
      case False
      with Cons.prems(3) p fb have "map_of xs k2 = Some b" by simp
      from notin[OF this] show ?thesis ..
    qed
  next
    case False
    with Cons.prems(2) p have m1: "map_of xs k1 = Some f" by simp
    show ?thesis
    proof (cases "k2 = a")
      case True
      with Cons.prems(3) p have "f = b" by simp
      with m1 notin show ?thesis by blast
    next
      case False
      with Cons.prems(3) p have "map_of xs k2 = Some f" by simp
      with Cons.IH m1 Cons.prems(1) show ?thesis by simp
    qed
  qed
qed

lemma setter_field_inj:
  "map_of defaults_table k1 = Some f \<Longrightarrow> map_of defaults_table k2 = Some f \<Longrightarrow> k1 = k2"
  by (rule map_of_inj_on_distinct[OF defaults_table_fields_distinct])

lemma set_prop_same:
  assumes "get_prop (heap s) v k = Some x" and "x \<noteq> Undefined" and "is_object (heap s) v"
  shows "set_prop v k x s = Some s"
proof -
  from assms(3) obtain a where v: "v = Ref a" and a: "a < length (heap s)"
    by (auto simp: is_object_def split: jsval.splits)
  from assms(1,2) v a have m: "map_of (props (heap s ! a)) k = Some x"
    by (auto simp: get_prop_def split: option.splits)
  have "(heap s ! a)\<lparr>props := AList.update k x (props (heap s ! a))\<rparr> = heap s ! a"
    by (simp add: AList.update_triv[OF m])
  then show ?thesis using v a by (simp add: set_prop_def)
qed

lemma is_instance_is_object: "is_instance h v c \<Longrightarrow> is_object h v"
  by (auto simp: is_instance_def is_object_def split: jsval.splits)

text \<open>A pass over a table whose defined values the body already holds changes no object.\<close>

lemma apply_defaults_stable:
  assumes "is_instance (heap s) body ''Body''"
    and "\<forall>(key, val) \<in> set (defined_entries ds).
           \<exists>field. map_of defaults_table key = Some field \<and> get_prop (heap s) body field = Some val"
  shows "apply_defaults body ds s = Some (s\<lparr>trace := trace s @ setter_calls body ds\<rparr>)"
  using assms
proof (induction ds arbitrary: s)
  case Nil
  then show ?case by (simp add: setter_calls_def defined_entries_def)
next
  case (Cons p ds)
  obtain key val where p: "p = (key, val)" by (cases p)
  show ?case
  proof (cases "val = Undefined")
    case True
    then have de: "defined_entries (p # ds) = defined_entries ds" using p by (simp add: defined_entries_def)
    from Cons.IH[OF Cons.prems(1)] Cons.prems(2) de
    have "apply_defaults body ds s = Some (s\<lparr>trace := trace s @ setter_calls body ds\<rparr>)" by simp
    then show ?thesis using True p de by (simp add: setter_calls_def)
  next
    case False
    then have de: "defined_entries (p # ds) = (key, val) # defined_entries ds"
      using p by (simp add: defined_entries_def)
    from Cons.prems(2) de obtain field where f: "map_of defaults_table key = Some field"
      and g: "get_prop (heap s) body field = Some val" by auto
    have sp: "set_prop body field val s = Some s"
      by (rule set_prop_same[OF g False is_instance_is_object[OF Cons.prems(1)]])
    let ?s1 = "s\<lparr>trace := trace s @ [BodySetter body key val]\<rparr>"
    have cs: "call_setter body key val s = Some ?s1"
      using Cons.prems(1) f sp by (simp add: call_setter_def)
    have i1: "is_instance (heap ?s1) body ''Body''" using Cons.prems(1) by simp
    have p1: "\<forall>(key, val) \<in> set (defined_entries ds).
           \<exists>field. map_of defaults_table key = Some field \<and> get_prop (heap ?s1) body field = Some val"
      using Cons.prems(2) de by simp
    from Cons.IH[OF i1 p1]
    have "apply_defaults body ds ?s1 = Some (?s1\<lparr>trace := trace ?s1 @ setter_calls body ds\<rparr>)" .
    then show ?thesis using cs False p de by (simp add: setter_calls_def)
  qed
qed

lemma fields_of_alt:
  "fields_of ds = {field. \<exists>(key, val) \<in> set (defined_entries ds). map_of defaults_table key = Some field}"
  by (force simp: fields_of_def List.map_filter_def image_iff)

lemma apply_defaults_frame:
  assumes "apply_defaults body ds s = Some s'"
  shows "\<forall>u f. f \<notin> fields_of ds \<longrightarrow> get_prop (heap s') u f = get_prop (heap s) u f"
  using assms
proof (induction ds arbitrary: s)
  case Nil
  then show ?case by simp
next
  case (Cons p ds)
  obtain key val where p: "p = (key, val)" by (cases p)
  show ?case
  proof (cases "val = Undefined")
    case True
    then have de: "defined_entries (p # ds) = defined_entries ds" using p by (simp add: defined_entries_def)
    from Cons.prems True p have "apply_defaults body ds s = Some s'" by simp
    from Cons.IH[OF this] show ?thesis by (simp add: fields_of_alt de)
  next
    case False
    then have de: "defined_entries (p # ds) = (key, val) # defined_entries ds"
      using p by (simp add: defined_entries_def)
    from Cons.prems False p obtain s1 where cs: "call_setter body key val s = Some s1"
      and rest: "apply_defaults body ds s1 = Some s'"
      by (auto simp: bind_eq_Some_conv)
    from call_setter_split[OF cs] obtain field s0 where f: "map_of defaults_table key = Some field"
      and sp: "set_prop body field val s = Some s0"
      and s1: "s1 = s0\<lparr>trace := trace s0 @ [BodySetter body key val]\<rparr>" by blast
    have sub: "fields_of ds \<subseteq> fields_of (p # ds)" and fin: "field \<in> fields_of (p # ds)"
      using f by (auto simp: fields_of_alt de)
    show ?thesis
    proof (intro allI impI)
      fix u g assume n: "g \<notin> fields_of (p # ds)"
      then have "g \<notin> fields_of ds" and "g \<noteq> field" using sub fin by auto
      then show "get_prop (heap s') u g = get_prop (heap s) u g"
        using Cons.IH[OF rest] get_prop_set_prop[OF sp] s1 by simp
    qed
  qed
qed

lemma apply_defaults_written:
  assumes "apply_defaults body ds s = Some s'" and "distinct (map fst ds)"
  shows "\<forall>(key, val) \<in> set (defined_entries ds).
           \<exists>field. map_of defaults_table key = Some field \<and> get_prop (heap s') body field = Some val"
  using assms
proof (induction ds arbitrary: s)
  case Nil
  then show ?case by (simp add: defined_entries_def)
next
  case (Cons p ds)
  obtain key val where p: "p = (key, val)" by (cases p)
  from Cons.prems(2) p have d: "distinct (map fst ds)" and kn: "key \<notin> fst ` set ds" by simp_all
  show ?case
  proof (cases "val = Undefined")
    case True
    then have de: "defined_entries (p # ds) = defined_entries ds" using p by (simp add: defined_entries_def)
    from Cons.prems True p have "apply_defaults body ds s = Some s'" by simp
    from Cons.IH[OF this d] show ?thesis by (simp add: de)
  next
    case False
    then have de: "defined_entries (p # ds) = (key, val) # defined_entries ds"
      using p by (simp add: defined_entries_def)
    from Cons.prems False p obtain s1 where cs: "call_setter body key val s = Some s1"
      and rest: "apply_defaults body ds s1 = Some s'"
      by (auto simp: bind_eq_Some_conv)
    from call_setter_split[OF cs] obtain field s0 where f: "map_of defaults_table key = Some field"
      and inst: "is_instance (heap s) body ''Body''"
      and sp: "set_prop body field val s = Some s0"
      and s1: "s1 = s0\<lparr>trace := trace s0 @ [BodySetter body key val]\<rparr>" by blast
    have g1: "get_prop (heap s1) body field = Some val"
      using get_prop_set_prop[OF sp] s1 is_instance_is_object[OF inst] by simp
    have "field \<notin> fields_of ds"
    proof
      assume "field \<in> fields_of ds"
      then obtain k' v' where kv: "(k', v') \<in> set (defined_entries ds)"
        and m: "map_of defaults_table k' = Some field" by (auto simp: fields_of_alt)
      from setter_field_inj[OF f m] have "k' = key" by simp
      with kv have "key \<in> fst ` set ds" by (force simp: defined_entries_def)
      with kn show False by simp
    qed
    with apply_defaults_frame[OF rest] g1 have "get_prop (heap s') body field = Some val" by simp
    with f Cons.IH[OF rest d] show ?thesis by (simp add: de)
  qed
qed


lemma build_defaults_keys: "map fst (build_defaults h c) = map fst defaults_table"
  by (simp add: build_defaults_def case_prod_unfold comp_def)

lemma known_setters_keys:
  assumes "map fst ds = map fst defaults_table"
  shows "known_setters ds"
proof -
  have "map_of defaults_table key \<noteq> None" if "(key, val) \<in> set ds" for key val
  proof -
    from that have "key \<in> set (map fst ds)" by force
    with assms have "key \<in> fst ` set defaults_table" by simp
    then show ?thesis by (simp add: map_of_eq_None_iff)
  qed
  then show ?thesis by (auto simp: known_setters_def defined_entries_def list_all_iff)
qed

section \<open>Lemmas: the constructor\<close>

lemma set_hooks_split:
  assumes "set_hooks c s = Some s'"
  shows "\<exists>s1. set_prop c ''internalCreateCallback'' (Fn ''createCallbackHandler'') s = Some s1 \<and>
    set_prop c ''internalRemoveCallback'' (Fn ''removeCallbackHandler'') s1 = Some s'"
  using assms unfolding set_hooks_def by (simp add: bind_eq_Some_conv)

lemma set_hooks_frame:
  assumes "set_hooks c s = Some s'"
  shows "trace s' = trace s" and "length (heap s') = length (heap s)"
    and "cls (heap s' ! a) = cls (heap s ! a)" and "elems (heap s' ! a) = elems (heap s ! a)"
    and "get_prop (heap s') u k =
          (if u = c \<and> is_object (heap s) c \<and> k = ''internalCreateCallback''
           then Some (Fn ''createCallbackHandler'')
           else if u = c \<and> is_object (heap s) c \<and> k = ''internalRemoveCallback''
           then Some (Fn ''removeCallbackHandler'')
           else get_prop (heap s) u k)"
proof -
  from set_hooks_split[OF assms] obtain s1 where
    1: "set_prop c ''internalCreateCallback'' (Fn ''createCallbackHandler'') s = Some s1" and
    2: "set_prop c ''internalRemoveCallback'' (Fn ''removeCallbackHandler'') s1 = Some s'"
    by blast
  note a = set_prop_cases[OF 1] and b = set_prop_cases[OF 2]
  show "trace s' = trace s" by (rule trans[OF b(1) a(1)])
  show "length (heap s') = length (heap s)" by (rule trans[OF b(2) a(2)])
  show "cls (heap s' ! a) = cls (heap s ! a)" by (rule trans[OF b(3) a(3)])
  show "elems (heap s' ! a) = elems (heap s ! a)" by (rule trans[OF b(4) a(4)])
  have io: "is_object (heap s1) c = is_object (heap s) c" by (rule is_object_length[OF a(2)])
  have g2: "get_prop (heap s') u k =
     (if u = c \<and> k = ''internalRemoveCallback'' \<and> is_object (heap s1) c
      then Some (Fn ''removeCallbackHandler'') else get_prop (heap s1) u k)"
    by (rule get_prop_set_prop[OF 2])
  have g1: "get_prop (heap s1) u k =
     (if u = c \<and> k = ''internalCreateCallback'' \<and> is_object (heap s) c
      then Some (Fn ''createCallbackHandler'') else get_prop (heap s) u k)"
    by (rule get_prop_set_prop[OF 1])
  show "get_prop (heap s') u k =
          (if u = c \<and> is_object (heap s) c \<and> k = ''internalCreateCallback''
           then Some (Fn ''createCallbackHandler'')
           else if u = c \<and> is_object (heap s) c \<and> k = ''internalRemoveCallback''
           then Some (Fn ''removeCallbackHandler'')
           else get_prop (heap s) u k)"
    unfolding g2 g1 io by (cases "k = ''internalCreateCallback''") simp_all
qed

lemma set_hooks_object:
  assumes "is_object (heap s) c"
  shows "\<exists>s'. set_hooks c s = Some s'"
proof -
  from set_prop_object[OF assms] obtain s1 where
    1: "set_prop c ''internalCreateCallback'' (Fn ''createCallbackHandler'') s = Some s1" by blast
  have "is_object (heap s1) c" using is_object_length[OF set_prop_cases(2)[OF 1]] assms by simp
  from set_prop_object[OF this] obtain s2 where
    "set_prop c ''internalRemoveCallback'' (Fn ''removeCallbackHandler'') s1 = Some s2" by blast
  with 1 show ?thesis by (simp add: set_hooks_def)
qed

lemma forEach_set_hooks_frame:
  assumes "forEach set_hooks es s = Some s'"
  shows "trace s' = trace s \<and> length (heap s') = length (heap s)
           \<and> (\<forall>a. cls (heap s' ! a) = cls (heap s ! a)) \<and> (\<forall>a. elems (heap s' ! a) = elems (heap s ! a))
           \<and> (\<forall>u k. get_prop (heap s') u k =
                (if u \<in> set es \<and> is_object (heap s) u \<and> k = ''internalCreateCallback''
                 then Some (Fn ''createCallbackHandler'')
                 else if u \<in> set es \<and> is_object (heap s) u \<and> k = ''internalRemoveCallback''
                 then Some (Fn ''removeCallbackHandler'')
                 else get_prop (heap s) u k))"
  using assms
proof (induction es arbitrary: s)
  case Nil
  then show ?case by simp
next
  case (Cons e es)
  from Cons.prems obtain s1 where s1: "set_hooks e s = Some s1" and rest: "forEach set_hooks es s1 = Some s'"
    by (cases "set_hooks e s") simp_all
  note fr = set_hooks_frame[OF s1]
  note ih = Cons.IH[OF rest]
  have io: "\<And>u. is_object (heap s1) u = is_object (heap s) u" by (rule is_object_length[OF fr(2)])
  have t: "trace s' = trace s" using ih fr(1) by simp
  have l: "length (heap s') = length (heap s)" using ih fr(2) by simp
  have c: "\<forall>a. cls (heap s' ! a) = cls (heap s ! a)" using ih fr(3) by simp
  have el: "\<forall>a. elems (heap s' ! a) = elems (heap s ! a)" using ih fr(4) by simp
  have g: "\<forall>u k. get_prop (heap s') u k =
                (if u \<in> set (e # es) \<and> is_object (heap s) u \<and> k = ''internalCreateCallback''
                 then Some (Fn ''createCallbackHandler'')
                 else if u \<in> set (e # es) \<and> is_object (heap s) u \<and> k = ''internalRemoveCallback''
                 then Some (Fn ''removeCallbackHandler'')
                 else get_prop (heap s) u k)"
  proof (intro allI)
    fix u k
    have 1: "get_prop (heap s') u k =
                (if u \<in> set es \<and> is_object (heap s) u \<and> k = ''internalCreateCallback''
                 then Some (Fn ''createCallbackHandler'')
                 else if u \<in> set es \<and> is_object (heap s) u \<and> k = ''internalRemoveCallback''
                 then Some (Fn ''removeCallbackHandler'')
                 else get_prop (heap s1) u k)"
      using ih io by simp
    show "get_prop (heap s') u k =
                (if u \<in> set (e # es) \<and> is_object (heap s) u \<and> k = ''internalCreateCallback''
                 then Some (Fn ''createCallbackHandler'')
                 else if u \<in> set (e # es) \<and> is_object (heap s) u \<and> k = ''internalRemoveCallback''
                 then Some (Fn ''removeCallbackHandler'')
                 else get_prop (heap s) u k)"
      unfolding 1 fr(5)
      by (cases "k = ''internalCreateCallback''"; cases "u = e"; simp)
  qed
  from t l c el g show ?case by blast
qed

lemma forEach_set_hooks_total:
  assumes "list_all (is_object (heap s)) es"
  shows "\<exists>s'. forEach set_hooks es s = Some s'"
  using assms
proof (induction es arbitrary: s)
  case Nil
  then show ?case by simp
next
  case (Cons e es)
  from Cons.prems have eo: "is_object (heap s) e" by simp
  from set_hooks_object[OF eo] obtain s1 where s1: "set_hooks e s = Some s1" by blast
  have "list_all (is_object (heap s1)) es"
    using Cons.prems is_object_length[OF set_hooks_frame(2)[OF s1]] by (simp add: list_all_iff)
  from Cons.IH[OF this] obtain s' where "forEach set_hooks es s1 = Some s'" by blast
  with s1 show ?case by simp
qed

lemma IsPlainObject_is_object: "IsPlainObject h v \<Longrightarrow> is_object h v"
  by (auto simp: IsPlainObject_def is_object_def split: jsval.splits)

lemma first_elem_in_set: "array_elems h v \<noteq> [] \<Longrightarrow> first_elem h v \<in> set (array_elems h v)"
  by (cases "array_elems h v") (auto simp: first_elem_def)

lemma IsPlainObject_first_nonempty: "IsPlainObject h (first_elem h v) \<Longrightarrow> array_elems h v \<noteq> []"
  by (auto simp: first_elem_def IsPlainObject_def)

lemma IsPlainObject_truthy: "IsPlainObject h v \<Longrightarrow> truthy v"
  by (auto simp: IsPlainObject_def split: jsval.splits)

lemma isArray_truthy: "isArray h v \<Longrightarrow> truthy v"
  by (auto simp: isArray_def split: jsval.splits)

lemma isArray_not_plain: "isArray h v \<Longrightarrow> \<not> IsPlainObject h v"
  by (auto simp: isArray_def IsPlainObject_def split: jsval.splits)

text \<open>The four branches of lines 51-89.\<close>

lemma resolve_args_none:
  "\<not> truthy children0 \<Longrightarrow> \<not> truthy config0 \<Longrightarrow>
   resolve_args children0 config0 s =
     Some (children0, Ref (length (heap s)), s\<lparr>heap := heap s @ [hooks_literal]\<rparr>)"
  by (simp add: resolve_args_def alloc_def)

lemma resolve_args_record:
  "IsPlainObject (heap s) children0 \<Longrightarrow>
   resolve_args children0 config0 s = do { s1 \<leftarrow> set_hooks children0 s; Some (Null, children0, s1) }"
  by (simp add: resolve_args_def IsPlainObject_truthy)

lemma resolve_args_array:
  "isArray (heap s) children0 \<Longrightarrow> IsPlainObject (heap s) (first_elem (heap s) children0) \<Longrightarrow>
   resolve_args children0 config0 s =
     do { s1 \<leftarrow> forEach set_hooks (array_elems (heap s) children0) s;
          Some (Null, first_elem (heap s) children0, s1) }"
  by (simp add: resolve_args_def isArray_truthy isArray_not_plain)

lemma resolve_args_other:
  "truthy children0 \<or> truthy config0 \<Longrightarrow> \<not> IsPlainObject (heap s) children0 \<Longrightarrow>
   \<not> (isArray (heap s) children0 \<and> IsPlainObject (heap s) (first_elem (heap s) children0)) \<Longrightarrow>
   resolve_args children0 config0 s =
     Some (children0, Ref (length (heap s)), s\<lparr>heap := heap s @ [hooks_literal]\<rparr>)"
  by (auto simp add: resolve_args_def alloc_def)

lemma fresh_hooks:
  "is_object (h @ [hooks_literal]) (Ref (length h))"
  "get_prop (h @ [hooks_literal]) (Ref (length h)) ''internalCreateCallback'' = Some (Fn ''createCallbackHandler'')"
  "get_prop (h @ [hooks_literal]) (Ref (length h)) ''internalRemoveCallback'' = Some (Fn ''removeCallbackHandler'')"
  by (simp_all add: is_object_def get_prop_def hooks_literal_def)

lemma resolve_args_hooks:
  assumes "resolve_args children0 config0 s = Some (ch, cfg, s1)"
  shows "trace s1 = trace s \<and> is_object (heap s1) cfg
    \<and> get_prop (heap s1) cfg ''internalCreateCallback'' = Some (Fn ''createCallbackHandler'')
    \<and> get_prop (heap s1) cfg ''internalRemoveCallback'' = Some (Fn ''removeCallbackHandler'')"
proof -
  consider (none) "\<not> truthy children0" "\<not> truthy config0"
    | (rec) "IsPlainObject (heap s) children0"
    | (arr) "isArray (heap s) children0" "IsPlainObject (heap s) (first_elem (heap s) children0)"
    | (other) "truthy children0 \<or> truthy config0" "\<not> IsPlainObject (heap s) children0"
        "\<not> (isArray (heap s) children0 \<and> IsPlainObject (heap s) (first_elem (heap s) children0))"
    by blast
  then show ?thesis
  proof cases
    case none
    from assms[unfolded resolve_args_none[OF none]] have "cfg = Ref (length (heap s))"
      "s1 = s\<lparr>heap := heap s @ [hooks_literal]\<rparr>" by simp_all
    then show ?thesis by (simp add: fresh_hooks)
  next
    case rec
    from assms[unfolded resolve_args_record[OF rec]]
    have sa: "set_hooks children0 s = Some s1" and e: "cfg = children0"
      by (auto simp: bind_eq_Some_conv)
    note fr = set_hooks_frame[OF sa]
    have o: "is_object (heap s) children0" using rec by (rule IsPlainObject_is_object)
    have "is_object (heap s1) children0" using o is_object_length[OF fr(2)] by simp
    then show ?thesis unfolding e fr(1) fr(5) using o by simp
  next
    case arr
    from assms[unfolded resolve_args_array[OF arr]]
    have sa: "forEach set_hooks (array_elems (heap s) children0) s = Some s1"
      and e: "cfg = first_elem (heap s) children0"
      by (auto simp: bind_eq_Some_conv)
    have po: "is_object (heap s) cfg" using arr(2) e by (simp add: IsPlainObject_is_object)
    have mem: "cfg \<in> set (array_elems (heap s) children0)"
      unfolding e using arr(2) first_elem_in_set IsPlainObject_first_nonempty by blast
    note fr = forEach_set_hooks_frame[OF sa]
    have "is_object (heap s1) cfg" using po is_object_length[of "heap s1" "heap s"] fr by simp
    then show ?thesis using fr po mem by simp
  next
    case other
    from assms[unfolded resolve_args_other[OF other]] have "cfg = Ref (length (heap s))"
      "s1 = s\<lparr>heap := heap s @ [hooks_literal]\<rparr>" by simp_all
    then show ?thesis by (simp add: fresh_hooks)
  qed
qed

lemma initialize_run:
  assumes r: "resolve_args children0 config0 s = Some (ch, cfg, s1)"
  shows "\<exists>s2. set_prop cfg ''classType'' (GetFastValue (heap s1) cfg ''classType'' (Fn ''ArcadeSprite'')) s1 = Some s2
           \<and> initialize this w scene children0 config0 s =
               Some (this\<lparr>world := w, physicsType := DYNAMIC_BODY,
                          defaults := build_defaults (heap s2) cfg, gtype := ''PhysicsGroup''\<rparr>,
                     s2\<lparr>trace := trace s @ [GroupCall scene ch cfg]\<rparr>)"
proof -
  from resolve_args_hooks[OF r] have o: "is_object (heap s1) cfg" and t: "trace s1 = trace s" by simp_all
  from set_prop_object[OF o] obtain s2 where
    s2: "set_prop cfg ''classType'' (GetFastValue (heap s1) cfg ''classType'' (Fn ''ArcadeSprite'')) s1 = Some s2"
    by blast
  have "trace s2 = trace s" using set_prop_cases(1)[OF s2] t by simp
  then show ?thesis using r s2 by (simp add: initialize_def Let_def)
qed

lemma initialize_hooks:
  assumes r: "resolve_args children0 config0 s = Some (ch, cfg, s1)"
  shows "\<exists>g s'. initialize this w scene children0 config0 s = Some (g, s')
           \<and> trace s' = trace s @ [GroupCall scene ch cfg]
           \<and> get_prop (heap s') cfg ''internalCreateCallback'' = Some (Fn ''createCallbackHandler'')
           \<and> get_prop (heap s') cfg ''internalRemoveCallback'' = Some (Fn ''removeCallbackHandler'')
           \<and> defaults g = build_defaults (heap s') cfg"
proof -
  from initialize_run[OF r, of this w scene] obtain s2 where
    s2: "set_prop cfg ''classType'' (GetFastValue (heap s1) cfg ''classType'' (Fn ''ArcadeSprite'')) s1 = Some s2"
    and i: "initialize this w scene children0 config0 s =
               Some (this\<lparr>world := w, physicsType := DYNAMIC_BODY,
                          defaults := build_defaults (heap s2) cfg, gtype := ''PhysicsGroup''\<rparr>,
                     s2\<lparr>trace := trace s @ [GroupCall scene ch cfg]\<rparr>)"
    by blast
  note h = resolve_args_hooks[OF r]
  have "get_prop (heap s2) cfg ''internalCreateCallback'' = Some (Fn ''createCallbackHandler'')"
    unfolding get_prop_set_prop[OF s2] using h by simp
  moreover have "get_prop (heap s2) cfg ''internalRemoveCallback'' = Some (Fn ''removeCallbackHandler'')"
    unfolding get_prop_set_prop[OF s2] using h by simp
  ultimately show ?thesis using i by simp
qed

text \<open>The constructor returns on each of the four supported shapes of its arguments.\<close>

lemma is_entity_not_plain: "is_entity h v \<Longrightarrow> \<not> IsPlainObject h v"
  by (auto simp: is_entity_def IsPlainObject_def split: jsval.splits cls.splits)

lemma resolve_args_total:
  assumes "supported_shape (heap s) children0 config0"
  shows "\<exists>ch cfg s1. resolve_args children0 config0 s = Some (ch, cfg, s1)"
proof -
  from assms consider (none) "shape_none children0 config0"
    | (rec) "shape_config_record (heap s) children0"
    | (ents) "shape_entity_array (heap s) children0"
    | (cfgs) "shape_config_array (heap s) children0"
    by (auto simp: supported_shape_def)
  then show ?thesis
  proof cases
    case none
    then show ?thesis by (simp add: shape_none_def resolve_args_none)
  next
    case rec
    then have p: "IsPlainObject (heap s) children0" by (simp add: shape_config_record_def)
    from set_hooks_object[OF IsPlainObject_is_object[OF p]] obtain s1 where
      "set_hooks children0 s = Some s1" by blast
    then show ?thesis by (simp add: resolve_args_record[OF p])
  next
    case ents
    then have a: "isArray (heap s) children0"
      and es: "list_all (is_entity (heap s)) (array_elems (heap s) children0)"
      by (simp_all add: shape_entity_array_def)
    have "\<not> IsPlainObject (heap s) (first_elem (heap s) children0)"
    proof (cases "array_elems (heap s) children0")
      case Nil
      then show ?thesis by (simp add: first_elem_def IsPlainObject_def)
    next
      case (Cons x xs)
      with es have "is_entity (heap s) x" by simp
      then show ?thesis using Cons by (simp add: first_elem_def is_entity_not_plain)
    qed
    then show ?thesis
      using resolve_args_other[of children0 config0 s] isArray_truthy[OF a] isArray_not_plain[OF a]
      by simp
  next
    case cfgs
    then have a: "isArray (heap s) children0"
      and ne: "array_elems (heap s) children0 \<noteq> []"
      and es: "list_all (IsPlainObject (heap s)) (array_elems (heap s) children0)"
      by (simp_all add: shape_config_array_def)
    from first_elem_in_set[OF ne] es have p: "IsPlainObject (heap s) (first_elem (heap s) children0)"
      by (simp add: list_all_iff)
    from es have "list_all (is_object (heap s)) (array_elems (heap s) children0)"
      by (simp add: list_all_iff IsPlainObject_is_object)
    from forEach_set_hooks_total[OF this] obtain s1 where
      "forEach set_hooks (array_elems (heap s) children0) s = Some s1" by blast
    then show ?thesis by (simp add: resolve_args_array[OF a p])
  qed
qed

lemma GetFastValue_get_prop:
  "GetFastValue h v k d = (case get_prop h v k of Some x \<Rightarrow> if x = Undefined then d else x | None \<Rightarrow> d)"
  by (simp add: GetFastValue_def get_prop_def split: jsval.splits option.splits)

lemma initialize_result:
  assumes r: "resolve_args children0 config0 s = Some (ch, cfg, s1)"
  shows "\<exists>g s'. initialize this w scene children0 config0 s = Some (g, s')
           \<and> trace s' = trace s @ [GroupCall scene ch cfg]
           \<and> length (heap s') = length (heap s1)
           \<and> (\<forall>u k. get_prop (heap s') u k =
                 (if u = cfg \<and> k = ''classType''
                  then Some (GetFastValue (heap s1) cfg ''classType'' (Fn ''ArcadeSprite''))
                  else get_prop (heap s1) u k))
           \<and> defaults g = build_defaults (heap s') cfg"
proof -
  from initialize_run[OF r, of this w scene] obtain s2 where
    s2: "set_prop cfg ''classType'' (GetFastValue (heap s1) cfg ''classType'' (Fn ''ArcadeSprite'')) s1 = Some s2"
    and i: "initialize this w scene children0 config0 s =
               Some (this\<lparr>world := w, physicsType := DYNAMIC_BODY,
                          defaults := build_defaults (heap s2) cfg, gtype := ''PhysicsGroup''\<rparr>,
                     s2\<lparr>trace := trace s @ [GroupCall scene ch cfg]\<rparr>)"
    by blast
  from resolve_args_hooks[OF r] have o: "is_object (heap s1) cfg" by simp
  have g: "\<forall>u k. get_prop (heap s2) u k =
                 (if u = cfg \<and> k = ''classType''
                  then Some (GetFastValue (heap s1) cfg ''classType'' (Fn ''ArcadeSprite''))
                  else get_prop (heap s1) u k)"
    using get_prop_set_prop[OF s2] o by simp
  have l: "length (heap s2) = length (heap s1)" by (rule set_prop_cases(2)[OF s2])
  from i g l show ?thesis by simp
qed

lemma build_defaults_fresh:
  "build_defaults (h @ [hooks_literal\<lparr>props := props hooks_literal @ [(''classType'', x)]\<rparr>]) (Ref (length h))
     = map (\<lambda>(setter, field). (setter, Undefined)) defaults_table"
  by (simp add: build_defaults_def defaults_table_def GetFastValue_def hooks_literal_def)

lemma initialize_fresh:
  assumes "resolve_args children0 config0 s =
     Some (children0, Ref (length (heap s)), s\<lparr>heap := heap s @ [hooks_literal]\<rparr>)"
  shows "initialize this w scene children0 config0 s =
     Some (this\<lparr>world := w, physicsType := DYNAMIC_BODY,
                defaults := map (\<lambda>(setter, field). (setter, Undefined)) defaults_table,
                gtype := ''PhysicsGroup''\<rparr>,
           \<lparr>heap = heap s @ [hooks_literal\<lparr>props := props hooks_literal @ [(''classType'', Fn ''ArcadeSprite'')]\<rparr>],
            trace = trace s @ [GroupCall scene children0 (Ref (length (heap s)))]\<rparr>)"
proof -
  let ?s1 = "s\<lparr>heap := heap s @ [hooks_literal]\<rparr>"
  let ?c = "Ref (length (heap s))"
  have g: "GetFastValue (heap s @ [hooks_literal]) ?c ''classType'' (Fn ''ArcadeSprite'') = Fn ''ArcadeSprite''"
    by (simp add: GetFastValue_def hooks_literal_def)
  have sp: "set_prop ?c ''classType'' (Fn ''ArcadeSprite'') ?s1 =
     Some (s\<lparr>heap := heap s @ [hooks_literal\<lparr>props := props hooks_literal @ [(''classType'', Fn ''ArcadeSprite'')]\<rparr>]\<rparr>)"
    by (simp add: set_prop_def hooks_literal_def)
  show ?thesis
    unfolding initialize_def assms
    by (simp add: g sp build_defaults_fresh Let_def)
qed

lemma initialize_defaults_keys:
  assumes "initialize this w scene children0 config0 s = Some (g, s')"
  shows "map fst (defaults g) = map fst defaults_table"
proof -
  from assms obtain ch cfg s1 where r: "resolve_args children0 config0 s = Some (ch, cfg, s1)"
    by (cases "resolve_args children0 config0 s") (auto simp: initialize_def)
  from initialize_hooks[OF r, of this w scene] assms show ?thesis
    by (auto simp: build_defaults_keys)
qed

lemma map_of_build_defaults:
  assumes "(setter, field) \<in> set defaults_table"
  shows "map_of (build_defaults h c) setter = Some (GetFastValue h c field Undefined)"
proof -
  have m: "map_of defaults_table setter = Some field"
    by (rule map_of_is_SomeI[OF defaults_table_keys_distinct assms])
  have "map_of (build_defaults h c) setter
      = map_option (\<lambda>field. GetFastValue h c field Undefined) (map_of defaults_table setter)"
    unfolding build_defaults_def by (simp add: map_of_map)
  with m show ?thesis by simp
qed

lemma GetFastValue_absent: "\<not> has_own h c k \<Longrightarrow> GetFastValue h c k d = d"
  by (auto simp: has_own_def GetFastValue_def split: jsval.splits option.splits dest!: map_of_SomeD)
     force

lemma undefined_entry_not_called:
  assumes "distinct (map fst ds)" and "map_of ds setter = Some Undefined"
  shows "setter \<notin> fst ` set (defined_entries ds)"
proof
  assume "setter \<in> fst ` set (defined_entries ds)"
  then obtain v where "(setter, v) \<in> set ds" and "v \<noteq> Undefined"
    by (auto simp: defined_entries_def)
  with map_of_is_SomeI[OF assms(1)] assms(2) show False by fastforce
qed

section \<open>Lemmas: the calls a hook makes\<close>

lemma apply_defaults_trace:
  assumes "apply_defaults body ds s = Some s'"
  shows "trace s' = trace s @ setter_calls body ds"
  using assms
proof (induction ds arbitrary: s)
  case Nil
  then show ?case by (simp add: setter_calls_def defined_entries_def)
next
  case (Cons p ds)
  obtain key val where p: "p = (key, val)" by (cases p)
  show ?case
  proof (cases "val = Undefined")
    case True
    with Cons p show ?thesis by (simp add: setter_calls_def defined_entries_def)
  next
    case False
    from Cons.prems False p obtain s1 where cs: "call_setter body key val s = Some s1"
      and rest: "apply_defaults body ds s1 = Some s'"
      by (auto simp: bind_eq_Some_conv)
    from Cons.IH[OF rest] call_setter_frame(4)[OF cs] False p show ?thesis
      by (simp add: setter_calls_def defined_entries_def)
  qed
qed

lemma enableBody_trace:
  assumes "enableBody w child ty s = Some s'"
  shows "trace s' = trace s @ [EnableBody w child ty]"
proof -
  let ?s2 = "s\<lparr>heap := heap s @
       [\<lparr>cls = Instance ''Vector2'', props = [(''x'', Num dzero), (''y'', Num dzero)], elems = []\<rparr>,
        \<lparr>cls = Instance ''Body'', props = [(''velocity'', Ref (length (heap s)))], elems = []\<rparr>]\<rparr>"
  from assms obtain y where sp: "set_prop child ''body'' (Ref (Suc (length (heap s)))) ?s2 = Some y"
    and s': "s' = y\<lparr>trace := trace y @ [EnableBody w child ty]\<rparr>"
    by (auto simp: enableBody_def alloc_def bind_eq_Some_conv split: if_splits)
  from set_prop_cases(1)[OF sp] s' show ?thesis by simp
qed

lemma createCallbackHandler_trace:
  assumes "createCallbackHandler this child s = Some (r, s')"
  shows "\<exists>pre body. trace s' = trace s @ pre @ setter_calls body (defaults this)
           \<and> (pre = [] \<or> pre = [EnableBody (world this) child DYNAMIC_BODY])"
proof -
  from assms obtain b s1 body where b: "get_prop (heap s) child ''body'' = Some b"
    and s1: "(if \<not> truthy b then enableBody (world this) child DYNAMIC_BODY s else Some s) = Some s1"
    and ad: "apply_defaults body (defaults this) s1 = Some s'"
    by (auto simp: createCallbackHandler_def bind_eq_Some_conv)
  have "trace s1 = trace s @ (if truthy b then [] else [EnableBody (world this) child DYNAMIC_BODY])"
  proof (cases "truthy b")
    case True
    with s1 show ?thesis by simp
  next
    case False
    with s1 have "enableBody (world this) child DYNAMIC_BODY s = Some s1" by simp
    from enableBody_trace[OF this] False show ?thesis by simp
  qed
  with apply_defaults_trace[OF ad]
  have "trace s' = trace s @ (if truthy b then [] else [EnableBody (world this) child DYNAMIC_BODY])
                     @ setter_calls body (defaults this)" by simp
  moreover have "(if truthy b then [] else [EnableBody (world this) child DYNAMIC_BODY]) = []
     \<or> (if truthy b then [] else [EnableBody (world this) child DYNAMIC_BODY])
          = [EnableBody (world this) child DYNAMIC_BODY]" by simp
  ultimately show ?thesis by blast
qed

lemma setter_keys_append: "setter_keys (xs @ ys) = setter_keys xs @ setter_keys ys"
  by (induction xs rule: setter_keys.induct) simp_all

lemma setter_keys_map: "setter_keys (map (\<lambda>(key, val). BodySetter body key val) xs) = map fst xs"
  by (induction xs) auto

lemma setter_keys_setter_calls: "setter_keys (setter_calls body ds) = map fst (defined_entries ds)"
  by (simp add: setter_calls_def setter_keys_map)

lemma setter_events_map:
  "filter is_setter_call (map (\<lambda>(key, val). BodySetter body key val) xs)
     = map (\<lambda>(key, val). BodySetter body key val) xs"
  by (induction xs) auto

lemma setter_events_setter_calls: "setter_events (setter_calls body ds) = setter_calls body ds"
  by (simp add: setter_calls_def setter_events_def setter_events_map)

section \<open>Lemmas: the example stores\<close>

lemma ex_shapes:
  "shape_none Undefined Undefined"
  "shape_config_record (heap ex_state) (Ref 7)"
  "shape_entity_array (heap ex_state) (Ref 6)"
  "shape_config_array (heap ex_state) (Ref 8)"
  by (simp_all add: shape_none_def shape_config_record_def shape_entity_array_def shape_config_array_def
      ex_state_def ex_heap_def IsPlainObject_def isArray_def array_elems_def is_entity_def)

lemma ex_initialize:
  "initialize ex_group (Ref 0) Null (Ref 5) Undefined ex_state = Some (ex_group, ex_built_state)"
  by (simp add: initialize_def resolve_args_def IsPlainObject_def set_hooks_def set_prop_def
      GetFastValue_def build_defaults_def defaults_table_def ex_state_def ex_heap_def ex_group_def
      ex_built_state_def)

section \<open>Lemmas: the bulk velocity setters\<close>

declare setVelocity_loop.simps [simp del]
declare setVelocityX_loop.simps [simp del]

lemma vector_set_run:
  assumes "is_instance (heap s) v ''Vector2''"
  shows "\<exists>s'. vector_set v x y s = Some s' \<and> trace s' = trace s
           \<and> (\<forall>u c. is_instance (heap s') u c = is_instance (heap s) u c)
           \<and> (\<forall>u k. get_prop (heap s') u k =
                 (if u = v \<and> k = ''x'' then Some (Num x)
                  else if u = v \<and> k = ''y'' then Some (Num y)
                  else get_prop (heap s) u k))"
proof -
  have o: "is_object (heap s) v" by (rule is_instance_is_object[OF assms])
  from set_prop_object[OF o] obtain s1 where 1: "set_prop v ''x'' (Num x) s = Some s1" by blast
  have o1: "is_object (heap s1) v" using is_object_length[OF set_prop_cases(2)[OF 1]] o by simp
  from set_prop_object[OF o1] obtain s2 where 2: "set_prop v ''y'' (Num y) s1 = Some s2" by blast
  have r: "vector_set v x y s = Some s2" using assms 1 2 by (simp add: vector_set_def)
  have t: "trace s2 = trace s" using set_prop_cases(1)[OF 1] set_prop_cases(1)[OF 2] by simp
  have i: "\<forall>u c. is_instance (heap s2) u c = is_instance (heap s) u c"
    using set_prop_is_instance[OF 1] set_prop_is_instance[OF 2] by simp
  have g: "\<forall>u k. get_prop (heap s2) u k =
                 (if u = v \<and> k = ''x'' then Some (Num x)
                  else if u = v \<and> k = ''y'' then Some (Num y)
                  else get_prop (heap s) u k)"
  proof (intro allI)
    fix u k
    show "get_prop (heap s2) u k =
                 (if u = v \<and> k = ''x'' then Some (Num x)
                  else if u = v \<and> k = ''y'' then Some (Num y)
                  else get_prop (heap s) u k)"
      unfolding get_prop_set_prop[OF 2] get_prop_set_prop[OF 1] using o o1
      by (cases "k = ''x''") simp_all
  qed
  from r t i g show ?thesis by blast
qed

lemma velocity_of_frame:
  assumes "\<forall>u k. k \<noteq> ''x'' \<and> k \<noteq> ''y'' \<longrightarrow> get_prop h' u k = get_prop h u k"
  shows "velocity_of h' item = velocity_of h item"
  using assms by (simp add: velocity_of_def)

lemma member_ok_frame:
  assumes "\<forall>u. velocity_of h' u = velocity_of h u"
    and "\<forall>u c. is_instance h' u c = is_instance h u c"
  shows "member_ok h' item = member_ok h item"
  using assms by (simp add: member_ok_def split: option.splits)

lemma member_ok_D:
  assumes "member_ok h item"
  shows "\<exists>body v. get_prop h item ''body'' = Some body \<and> get_prop h body ''velocity'' = Some v
           \<and> velocity_of h item = Some v \<and> is_instance h v ''Vector2''"
  using assms by (auto simp: member_ok_def velocity_of_def bind_eq_Some_conv split: option.splits)

lemma setVelocity_loop_run:
  assumes "list_all (member_ok (heap s)) items"
    and "distinct (map (velocity_of (heap s)) items)"
  shows "\<exists>s'. setVelocity_loop items i x y step s = Some s' \<and> trace s' = trace s
           \<and> (\<forall>u. velocity_of (heap s') u = velocity_of (heap s) u)
           \<and> (\<forall>u c. is_instance (heap s') u c = is_instance (heap s) u c)
           \<and> (\<forall>j. i \<le> j \<and> j < length items \<longrightarrow>
                 velocity_xy (heap s') (items ! j) = Some (Num (dadd x (dmul (of_index j) step)), Num (dadd y (dmul (of_index j) step))))
           \<and> (\<forall>j. j < i \<and> j < length items \<longrightarrow>
                 velocity_xy (heap s') (items ! j) = velocity_xy (heap s) (items ! j))"
  using assms
proof (induction "length items - i" arbitrary: i s)
  case 0
  then have "\<not> i < length items" by simp
  then show ?case by (auto simp: setVelocity_loop.simps)
next
  case (Suc n)
  then have lt: "i < length items" by simp
  with Suc.prems(1) have "member_ok (heap s) (items ! i)" by (simp add: list_all_length)
  from member_ok_D[OF this] obtain body v where
    b: "get_prop (heap s) (items ! i) ''body'' = Some body"
    and v: "get_prop (heap s) body ''velocity'' = Some v"
    and vo: "velocity_of (heap s) (items ! i) = Some v"
    and vi: "is_instance (heap s) v ''Vector2''" by blast
  from vector_set_run[OF vi, of "dadd x (dmul (of_index i) step)" "dadd y (dmul (of_index i) step)"] obtain s1 where
    s1: "vector_set v (dadd x (dmul (of_index i) step)) (dadd y (dmul (of_index i) step)) s = Some s1"
    and t1: "trace s1 = trace s"
    and i1: "\<forall>u c. is_instance (heap s1) u c = is_instance (heap s) u c"
    and g1: "\<forall>u k. get_prop (heap s1) u k =
                 (if u = v \<and> k = ''x'' then Some (Num (dadd x (dmul (of_index i) step)))
                  else if u = v \<and> k = ''y'' then Some (Num (dadd y (dmul (of_index i) step)))
                  else get_prop (heap s) u k)"
    by blast
  have vf: "\<forall>u. velocity_of (heap s1) u = velocity_of (heap s) u"
    using g1 by (simp add: velocity_of_def)
  have unfold: "setVelocity_loop items i x y step s = setVelocity_loop items (Suc i) x y step s1"
    using lt b v s1 by (subst setVelocity_loop.simps) simp
  have p1: "list_all (member_ok (heap s1)) items"
    using Suc.prems(1) member_ok_frame[OF vf i1] by (simp add: list_all_iff)
  have "velocity_of (heap s1) = velocity_of (heap s)" by (rule ext) (simp add: vf)
  then have p2: "distinct (map (velocity_of (heap s1)) items)"
    using Suc.prems(2) by simp
  have n: "n = length items - Suc i" using Suc.hyps(2) by simp
  from Suc.hyps(1)[OF n p1 p2] obtain s' where
    r: "setVelocity_loop items (Suc i) x y step s1 = Some s'" "trace s' = trace s1"
       "\<forall>u. velocity_of (heap s') u = velocity_of (heap s1) u"
       "\<forall>u c. is_instance (heap s') u c = is_instance (heap s1) u c"
       "\<forall>j. Suc i \<le> j \<and> j < length items \<longrightarrow>
                 velocity_xy (heap s') (items ! j) = Some (Num (dadd x (dmul (of_index j) step)), Num (dadd y (dmul (of_index j) step)))"
       "\<forall>j. j < Suc i \<and> j < length items \<longrightarrow>
                 velocity_xy (heap s') (items ! j) = velocity_xy (heap s1) (items ! j)"
    by blast
  have xi: "velocity_xy (heap s1) (items ! i) = Some (Num (dadd x (dmul (of_index i) step)), Num (dadd y (dmul (of_index i) step)))"
    using vo vf g1 by (simp add: velocity_xy_def)
  have old: "velocity_xy (heap s1) (items ! j) = velocity_xy (heap s) (items ! j)"
    if j: "j < i" for j
  proof -
    from j lt have jl: "j < length items" by simp
    from Suc.prems(2) j lt jl have ne: "velocity_of (heap s) (items ! j) \<noteq> velocity_of (heap s) (items ! i)"
      by (simp add: distinct_conv_nth)
    show ?thesis
    proof (cases "velocity_of (heap s) (items ! j)")
      case None
      then show ?thesis using vf by (simp add: velocity_xy_def)
    next
      case (Some v')
      with ne vo have "v' \<noteq> v" by simp
      then show ?thesis using Some vf g1 by (simp add: velocity_xy_def)
    qed
  qed
  have a: "\<forall>j. i \<le> j \<and> j < length items \<longrightarrow>
                 velocity_xy (heap s') (items ! j) = Some (Num (dadd x (dmul (of_index j) step)), Num (dadd y (dmul (of_index j) step)))"
  proof (intro allI impI)
    fix j assume j: "i \<le> j \<and> j < length items"
    show "velocity_xy (heap s') (items ! j) = Some (Num (dadd x (dmul (of_index j) step)), Num (dadd y (dmul (of_index j) step)))"
    proof (cases "j = i")
      case True
      with r(6) lt xi show ?thesis by simp
    next
      case False
      with j have "Suc i \<le> j \<and> j < length items" by simp
      with r(5) show ?thesis by simp
    qed
  qed
  have b': "\<forall>j. j < i \<and> j < length items \<longrightarrow>
                 velocity_xy (heap s') (items ! j) = velocity_xy (heap s) (items ! j)"
    using r(6) old by simp
  have "setVelocity_loop items i x y step s = Some s'" using unfold r(1) by simp
  moreover have "trace s' = trace s" using r(2) t1 by simp
  moreover have "\<forall>u. velocity_of (heap s') u = velocity_of (heap s) u" using r(3) vf by simp
  moreover have "\<forall>u c. is_instance (heap s') u c = is_instance (heap s) u c" using r(4) i1 by simp
  ultimately show ?case using a b' by blast
qed

lemma setVelocityX_loop_run:
  assumes "list_all (member_ok (heap s)) items"
  shows "\<exists>s'. setVelocityX_loop items i val dzero s = Some s' \<and> trace s' = trace s
           \<and> (\<forall>u. velocity_of (heap s') u = velocity_of (heap s) u)
           \<and> (\<forall>u c. is_instance (heap s') u c = is_instance (heap s) u c)
           \<and> (\<forall>u k. get_prop (heap s') u k =
                 (if k = ''x'' \<and> (\<exists>j. i \<le> j \<and> j < length items \<and> velocity_of (heap s) (items ! j) = Some u)
                  then Some (Num val) else get_prop (heap s) u k))"
  using assms
proof (induction "length items - i" arbitrary: i s)
  case 0
  then have "\<not> i < length items" by simp
  then show ?case by (auto simp: setVelocityX_loop.simps)
next
  case (Suc n)
  then have lt: "i < length items" by simp
  with Suc.prems(1) have "member_ok (heap s) (items ! i)" by (simp add: list_all_length)
  from member_ok_D[OF this] obtain body v where
    b: "get_prop (heap s) (items ! i) ''body'' = Some body"
    and v: "get_prop (heap s) body ''velocity'' = Some v"
    and vo: "velocity_of (heap s) (items ! i) = Some v"
    and vi: "is_instance (heap s) v ''Vector2''" by blast
  have o: "is_object (heap s) v" by (rule is_instance_is_object[OF vi])
  from set_prop_object[OF o] obtain s1 where
    s1: "set_prop v ''x'' (Num (dadd val (dmul (of_index i) dzero))) s = Some s1" by blast
  have t1: "trace s1 = trace s" by (rule set_prop_cases(1)[OF s1])
  have i1: "\<forall>u c. is_instance (heap s1) u c = is_instance (heap s) u c"
    using set_prop_is_instance[OF s1] by simp
  have g1: "\<forall>u k. get_prop (heap s1) u k = (if u = v \<and> k = ''x'' then Some (Num val) else get_prop (heap s) u k)"
    using get_prop_set_prop[OF s1] o by (simp add: dadd_index_zero)
  have vf: "\<forall>u. velocity_of (heap s1) u = velocity_of (heap s) u"
    using g1 by (simp add: velocity_of_def)
  have unfold: "setVelocityX_loop items i val dzero s = setVelocityX_loop items (Suc i) val dzero s1"
    using lt b v s1 by (subst setVelocityX_loop.simps) simp
  have p1: "list_all (member_ok (heap s1)) items"
    using Suc.prems(1) member_ok_frame[OF vf i1] by (simp add: list_all_iff)
  have n: "n = length items - Suc i" using Suc.hyps(2) by simp
  from Suc.hyps(1)[OF n p1] obtain s' where
    r: "setVelocityX_loop items (Suc i) val dzero s1 = Some s'" "trace s' = trace s1"
       "\<forall>u. velocity_of (heap s') u = velocity_of (heap s1) u"
       "\<forall>u c. is_instance (heap s') u c = is_instance (heap s1) u c"
       "\<forall>u k. get_prop (heap s') u k =
                 (if k = ''x'' \<and> (\<exists>j. Suc i \<le> j \<and> j < length items \<and> velocity_of (heap s1) (items ! j) = Some u)
                  then Some (Num val) else get_prop (heap s1) u k)"
    by blast
  have g: "\<forall>u k. get_prop (heap s') u k =
                 (if k = ''x'' \<and> (\<exists>j. i \<le> j \<and> j < length items \<and> velocity_of (heap s) (items ! j) = Some u)
                  then Some (Num val) else get_prop (heap s) u k)"
  proof (intro allI)
    fix u k
    define later where
      "later = (\<exists>j. Suc i \<le> j \<and> j < length items \<and> velocity_of (heap s) (items ! j) = Some u)"
    have split: "(\<exists>j. i \<le> j \<and> j < length items \<and> velocity_of (heap s) (items ! j) = Some u)
       \<longleftrightarrow> u = v \<or> later"
    proof
      assume "\<exists>j. i \<le> j \<and> j < length items \<and> velocity_of (heap s) (items ! j) = Some u"
      then obtain j where j: "i \<le> j" "j < length items" "velocity_of (heap s) (items ! j) = Some u" by blast
      show "u = v \<or> later"
      proof (cases "j = i")
        case True
        with j(3) vo show ?thesis by simp
      next
        case False
        with j(1) have "Suc i \<le> j" by simp
        with j(2,3) show ?thesis unfolding later_def by blast
      qed
    next
      assume "u = v \<or> later"
      then show "\<exists>j. i \<le> j \<and> j < length items \<and> velocity_of (heap s) (items ! j) = Some u"
      proof
        assume "u = v"
        with vo lt show ?thesis by auto
      next
        assume later
        then obtain j where "Suc i \<le> j" "j < length items" "velocity_of (heap s) (items ! j) = Some u"
          unfolding later_def by blast
        then have "i \<le> j \<and> j < length items \<and> velocity_of (heap s) (items ! j) = Some u" by simp
        then show ?thesis by blast
      qed
    qed
    have 1: "get_prop (heap s') u k = (if k = ''x'' \<and> later then Some (Num val) else get_prop (heap s1) u k)"
      unfolding later_def using r(5) vf by simp
    have 2: "get_prop (heap s1) u k = (if u = v \<and> k = ''x'' then Some (Num val) else get_prop (heap s) u k)"
      using g1 by simp
    show "get_prop (heap s') u k =
                 (if k = ''x'' \<and> (\<exists>j. i \<le> j \<and> j < length items \<and> velocity_of (heap s) (items ! j) = Some u)
                  then Some (Num val) else get_prop (heap s) u k)"
      unfolding 1 2 split by (cases "k = ''x''"; cases "u = v"; cases later; simp)
  qed
  have "setVelocityX_loop items i val dzero s = Some s'" using unfold r(1) by simp
  moreover have "trace s' = trace s" using r(2) t1 by simp
  moreover have "\<forall>u. velocity_of (heap s') u = velocity_of (heap s) u" using r(3) vf by simp
  moreover have "\<forall>u c. is_instance (heap s') u c = is_instance (heap s) u c" using r(4) i1 by simp
  ultimately show ?case using g by blast
qed

lemma vel_members_ok: "list_all (member_ok (heap vel_state)) (getChildren vel_group)"
  by (simp add: vel_state_def vel_group_def getChildren_def member_ok_def velocity_of_def get_prop_def
      is_instance_def)

lemma vel_members_distinct: "distinct (map (velocity_of (heap vel_state)) (getChildren vel_group))"
  by (simp add: vel_state_def vel_group_def getChildren_def velocity_of_def get_prop_def)

section \<open>Properties of the creation hook\<close>

text \<open>
  C1. The creation hook on an entity \<open>child\<close> whose \<^verbatim>\<open>body\<close> field reads \<open>b\<close>. When
  \<open>b\<close> is falsy (no attached body), the hook makes exactly one attach call
  \<^verbatim>\<open>world.enableBody(child, DYNAMIC_BODY)\<close> and then invokes, on the body the entity
  now has, the setter of every defined entry of the defaults table. When \<open>b\<close> is a Body,
  it makes no attach call and still invokes every such setter on that body. The hook
  returns \<^verbatim>\<open>undefined\<close>. The group's world is a World, and the defined entries name
  setters of a Body (as those of a table built by the constructor do).
\<close>

theorem createCallbackHandler_attach_then_defaults:
  assumes "is_object (heap s) child"
    and "get_prop (heap s) child ''body'' = Some b"
    and "truthy b \<longrightarrow> is_instance (heap s) b ''Body''"
    and "\<not> truthy b \<longrightarrow> is_instance (heap s) (world this) ''World''"
    and "known_setters (defaults this)"
  shows "\<exists>s' body. createCallbackHandler this child s = Some (Undefined, s')
           \<and> get_prop (heap s') child ''body'' = Some body
           \<and> is_instance (heap s') body ''Body''
           \<and> (truthy b \<longrightarrow> body = b)
           \<and> trace s' = trace s @ (if truthy b then [] else [EnableBody (world this) child DYNAMIC_BODY])
                           @ setter_calls body (defaults this)"
proof -
  from createCallbackHandler_run[OF assms] obtain s' body where
    r: "createCallbackHandler this child s = Some (Undefined, s')"
       "get_prop (heap s') child ''body'' = Some body"
       "is_instance (heap s') body ''Body''"
       "trace s' = trace s @ (if truthy b then [] else [EnableBody (world this) child DYNAMIC_BODY])
                           @ setter_calls body (defaults this)"
    by blast
  have "truthy b \<longrightarrow> body = b"
  proof
    assume t: "truthy b"
    with assms(3) have inst: "is_instance (heap s) b ''Body''" by simp
    from apply_defaults_run[OF inst assms(5)] obtain s2 where
      a: "apply_defaults b (defaults this) s = Some s2"
         "\<forall>u k. k \<notin> snd ` set defaults_table \<longrightarrow> get_prop (heap s2) u k = get_prop (heap s) u k"
      by blast
    have "createCallbackHandler this child s = Some (Undefined, s2)"
      using t assms(2) a(1) by (simp add: createCallbackHandler_def)
    with r(1) have "s2 = s'" by simp
    with a(2) body_not_field assms(2) r(2) show "body = b" by simp
  qed
  with r show ?thesis by blast
qed

theorem createCallbackHandler_attach_then_defaults_witness:
  "is_object (heap ex_state) (Ref 1)
   \<and> get_prop (heap ex_state) (Ref 1) ''body'' = Some Null
   \<and> is_instance (heap ex_state) (world ex_group) ''World''
   \<and> known_setters (defaults ex_group)
   \<and> (\<exists>s' body. createCallbackHandler ex_group (Ref 1) ex_state = Some (Undefined, s')
         \<and> get_prop (heap s') (Ref 1) ''body'' = Some body
         \<and> is_instance (heap s') body ''Body''
         \<and> trace s' = [EnableBody (Ref 0) (Ref 1) DYNAMIC_BODY] @ setter_calls body (defaults ex_group))
   \<and> get_prop (heap ex_state) (Ref 2) ''body'' = Some (Ref 4)
   \<and> is_instance (heap ex_state) (Ref 4) ''Body''
   \<and> (\<exists>s'. createCallbackHandler ex_group (Ref 2) ex_state = Some (Undefined, s')
         \<and> get_prop (heap s') (Ref 2) ''body'' = Some (Ref 4)
         \<and> trace s' = setter_calls (Ref 4) (defaults ex_group))"
proof -
  have o1: "is_object (heap ex_state) (Ref 1)" and o2: "is_object (heap ex_state) (Ref 2)"
    by (simp_all add: ex_state_def ex_heap_def is_object_def)
  have b1: "get_prop (heap ex_state) (Ref 1) ''body'' = Some Null"
    and b2: "get_prop (heap ex_state) (Ref 2) ''body'' = Some (Ref 4)"
    by (simp_all add: ex_state_def ex_heap_def get_prop_def)
  have w: "is_instance (heap ex_state) (world ex_group) ''World''"
    and i4: "is_instance (heap ex_state) (Ref 4) ''Body''"
    by (simp_all add: ex_state_def ex_heap_def ex_group_def is_instance_def)
  note ks = ex_known_setters
  have t: "trace ex_state = []" and wv: "world ex_group = Ref 0"
    by (simp_all add: ex_state_def ex_group_def)
  have c1: "\<exists>s' body. createCallbackHandler ex_group (Ref 1) ex_state = Some (Undefined, s')
         \<and> get_prop (heap s') (Ref 1) ''body'' = Some body
         \<and> is_instance (heap s') body ''Body''
         \<and> trace s' = [EnableBody (Ref 0) (Ref 1) DYNAMIC_BODY] @ setter_calls body (defaults ex_group)"
    using createCallbackHandler_attach_then_defaults[OF o1 b1 _ _ ks] w t wv by auto
  have c2: "\<exists>s'. createCallbackHandler ex_group (Ref 2) ex_state = Some (Undefined, s')
         \<and> get_prop (heap s') (Ref 2) ''body'' = Some (Ref 4)
         \<and> trace s' = setter_calls (Ref 4) (defaults ex_group)"
    using createCallbackHandler_attach_then_defaults[OF o2 b2 _ _ ks] i4 t by auto
  from o1 b1 w ks c1 b2 i4 c2 show ?thesis by blast
qed

section \<open>Properties of the removal hook\<close>

text \<open>
  C5. The removal hook on an entity whose \<^verbatim>\<open>body\<close> field reads \<open>b\<close>. When \<open>b\<close> is
  truthy (a body is attached) it makes exactly one detach call
  \<^verbatim>\<open>world.disableBody(child)\<close> and nothing else; when \<open>b\<close> is falsy it makes no call
  and leaves the state as it was. In both cases it returns \<^verbatim>\<open>undefined\<close>.
\<close>

theorem removeCallbackHandler_detach:
  assumes "get_prop (heap s) child ''body'' = Some b"
    and "truthy b \<longrightarrow> is_instance (heap s) (world this) ''World''"
  shows "(truthy b \<longrightarrow>
            removeCallbackHandler this child s =
              Some (Undefined, s\<lparr>trace := trace s @ [DisableBody (world this) child]\<rparr>))
       \<and> (\<not> truthy b \<longrightarrow> removeCallbackHandler this child s = Some (Undefined, s))"
  using assms by (simp add: removeCallbackHandler_def disableBody_def)

theorem removeCallbackHandler_detach_witness:
  "get_prop (heap ex_state) (Ref 2) ''body'' = Some (Ref 4)
   \<and> truthy (Ref 4)
   \<and> is_instance (heap ex_state) (world ex_group) ''World''
   \<and> removeCallbackHandler ex_group (Ref 2) ex_state =
       Some (Undefined, ex_state\<lparr>trace := trace ex_state @ [DisableBody (world ex_group) (Ref 2)]\<rparr>)
   \<and> get_prop (heap ex_state) (Ref 1) ''body'' = Some Null
   \<and> \<not> truthy Null
   \<and> removeCallbackHandler ex_group (Ref 1) ex_state = Some (Undefined, ex_state)"
proof -
  have b1: "get_prop (heap ex_state) (Ref 1) ''body'' = Some Null"
    and b2: "get_prop (heap ex_state) (Ref 2) ''body'' = Some (Ref 4)"
    by (simp_all add: ex_state_def ex_heap_def get_prop_def)
  have w: "is_instance (heap ex_state) (world ex_group) ''World''"
    by (simp add: ex_state_def ex_heap_def ex_group_def is_instance_def)
  have c2: "removeCallbackHandler ex_group (Ref 2) ex_state =
       Some (Undefined, ex_state\<lparr>trace := trace ex_state @ [DisableBody (world ex_group) (Ref 2)]\<rparr>)"
    using removeCallbackHandler_detach[OF b2, of ex_group] w by simp
  have c1: "removeCallbackHandler ex_group (Ref 1) ex_state = Some (Undefined, ex_state)"
    using removeCallbackHandler_detach[OF b1, of ex_group] by simp
  from b1 b2 w c1 c2 show ?thesis by simp
qed

section \<open>The creation hook called twice\<close>

text \<open>
  C7. On an entity that already carries a Body, the creation hook called twice in
  succession makes no attach call: both calls make setter calls only, the second the same
  calls with the same values as the first. Under the model of the setters given above
  (each overwrites the part of the body it stands for), the second call changes no object:
  the store after two calls is the store after one. The table is an object, so its keys
  are distinct.
\<close>

theorem createCallbackHandler_twice:
  assumes "get_prop (heap s) child ''body'' = Some b"
    and "is_instance (heap s) b ''Body''"
    and "known_setters (defaults this)"
    and "distinct (map fst (defaults this))"
  shows "\<exists>s1 s2. createCallbackHandler this child s = Some (Undefined, s1)
           \<and> trace s1 = trace s @ setter_calls b (defaults this)
           \<and> createCallbackHandler this child s1 = Some (Undefined, s2)
           \<and> trace s2 = trace s1 @ setter_calls b (defaults this)
           \<and> heap s2 = heap s1"
proof -
  have t: "truthy b" using assms(2) by (auto simp: is_instance_def split: jsval.splits)
  from apply_defaults_run[OF assms(2,3)] obtain s1 where
    r: "apply_defaults b (defaults this) s = Some s1" "trace s1 = trace s @ setter_calls b (defaults this)"
       "\<forall>u c. is_instance (heap s1) u c = is_instance (heap s) u c"
       "\<forall>u k. k \<notin> snd ` set defaults_table \<longrightarrow> get_prop (heap s1) u k = get_prop (heap s) u k"
    by blast
  have c1: "createCallbackHandler this child s = Some (Undefined, s1)"
    using t assms(1) r(1) by (simp add: createCallbackHandler_def)
  have b1: "get_prop (heap s1) child ''body'' = Some b" using r(4) body_not_field assms(1) by simp
  have i1: "is_instance (heap s1) b ''Body''" using r(3) assms(2) by simp
  let ?s2 = "s1\<lparr>trace := trace s1 @ setter_calls b (defaults this)\<rparr>"
  have "apply_defaults b (defaults this) s1 = Some ?s2"
    by (rule apply_defaults_stable[OF i1 apply_defaults_written[OF r(1) assms(4)]])
  then have c2: "createCallbackHandler this child s1 = Some (Undefined, ?s2)"
    using t b1 by (simp add: createCallbackHandler_def)
  have "trace ?s2 = trace s1 @ setter_calls b (defaults this)" and "heap ?s2 = heap s1" by simp_all
  with c1 r(2) c2 show ?thesis by blast
qed

theorem createCallbackHandler_twice_witness:
  "get_prop (heap ex_state) (Ref 2) ''body'' = Some (Ref 4)
   \<and> is_instance (heap ex_state) (Ref 4) ''Body''
   \<and> known_setters (defaults ex_group)
   \<and> distinct (map fst (defaults ex_group))
   \<and> (\<exists>s1 s2. createCallbackHandler ex_group (Ref 2) ex_state = Some (Undefined, s1)
           \<and> trace s1 = trace ex_state @ setter_calls (Ref 4) (defaults ex_group)
           \<and> createCallbackHandler ex_group (Ref 2) s1 = Some (Undefined, s2)
           \<and> trace s2 = trace s1 @ setter_calls (Ref 4) (defaults ex_group)
           \<and> heap s2 = heap s1)"
proof -
  have b2: "get_prop (heap ex_state) (Ref 2) ''body'' = Some (Ref 4)"
    by (simp add: ex_state_def ex_heap_def get_prop_def)
  have i4: "is_instance (heap ex_state) (Ref 4) ''Body''"
    by (simp add: ex_state_def ex_heap_def is_instance_def)
  have d: "distinct (map fst (defaults ex_group))"
    by (simp add: ex_group_def build_defaults_keys defaults_table_keys_distinct)
  from b2 i4 ex_known_setters d createCallbackHandler_twice[OF b2 i4 ex_known_setters d]
  show ?thesis by blast
qed

section \<open>The order of the setter calls\<close>

text \<open>
  C6 (as amended). For a group built by the constructor, the setter calls the creation
  hook makes are the entries of the defaults table with a defined value, in the table's
  declaration order, each with the entry's value. That order is the order of the
  literal in the constructor: \<^verbatim>\<open>setCollideWorldBounds\<close> first, then
  \<^verbatim>\<open>setBoundsRectangle\<close>, and so on to \<^verbatim>\<open>setImmovable\<close>.
\<close>

theorem creation_hook_setter_order:
  assumes "initialize this0 w scene children0 config0 s0 = Some (g, s1)"
    and "is_object (heap s) child"
    and "get_prop (heap s) child ''body'' = Some b"
    and "truthy b \<longrightarrow> is_instance (heap s) b ''Body''"
    and "\<not> truthy b \<longrightarrow> is_instance (heap s) (world g) ''World''"
  shows "\<exists>s' body. createCallbackHandler g child s = Some (Undefined, s')
           \<and> setter_events (drop (length (trace s)) (trace s'))
               = map (\<lambda>(key, val). BodySetter body key val) (defined_entries (defaults g))
           \<and> map fst (defaults g) =
               [''setCollideWorldBounds'', ''setBoundsRectangle'', ''setAccelerationX'', ''setAccelerationY'',
                ''setAllowDrag'', ''setAllowGravity'', ''setAllowRotation'', ''setBounceX'', ''setBounceY'',
                ''setDragX'', ''setDragY'', ''setEnable'', ''setGravityX'', ''setGravityY'',
                ''setFrictionX'', ''setFrictionY'', ''setMaxVelocityX'', ''setMaxVelocityY'',
                ''setVelocityX'', ''setVelocityY'', ''setAngularVelocity'', ''setAngularAcceleration'',
                ''setAngularDrag'', ''setMass'', ''setImmovable'']"
proof -
  note k = initialize_defaults_keys[OF assms(1)]
  have ks: "known_setters (defaults g)" by (rule known_setters_keys[OF k])
  from createCallbackHandler_run[OF assms(2,3,4,5) ks] obtain s' body where
    r: "createCallbackHandler g child s = Some (Undefined, s')"
       "trace s' = trace s @ (if truthy b then [] else [EnableBody (world g) child DYNAMIC_BODY])
                           @ setter_calls body (defaults g)"
    by blast
  have "setter_events (drop (length (trace s)) (trace s')) = setter_calls body (defaults g)"
    using r(2) setter_events_setter_calls[of body "defaults g"] by (simp add: setter_events_def)
  then have e: "setter_events (drop (length (trace s)) (trace s'))
               = map (\<lambda>(key, val). BodySetter body key val) (defined_entries (defaults g))"
    by (simp add: setter_calls_def)
  have "map fst defaults_table =
               [''setCollideWorldBounds'', ''setBoundsRectangle'', ''setAccelerationX'', ''setAccelerationY'',
                ''setAllowDrag'', ''setAllowGravity'', ''setAllowRotation'', ''setBounceX'', ''setBounceY'',
                ''setDragX'', ''setDragY'', ''setEnable'', ''setGravityX'', ''setGravityY'',
                ''setFrictionX'', ''setFrictionY'', ''setMaxVelocityX'', ''setMaxVelocityY'',
                ''setVelocityX'', ''setVelocityY'', ''setAngularVelocity'', ''setAngularAcceleration'',
                ''setAngularDrag'', ''setMass'', ''setImmovable'']"
    by (simp add: defaults_table_def)
  with k have k2: "map fst (defaults g) =
               [''setCollideWorldBounds'', ''setBoundsRectangle'', ''setAccelerationX'', ''setAccelerationY'',
                ''setAllowDrag'', ''setAllowGravity'', ''setAllowRotation'', ''setBounceX'', ''setBounceY'',
                ''setDragX'', ''setDragY'', ''setEnable'', ''setGravityX'', ''setGravityY'',
                ''setFrictionX'', ''setFrictionY'', ''setMaxVelocityX'', ''setMaxVelocityY'',
                ''setVelocityX'', ''setVelocityY'', ''setAngularVelocity'', ''setAngularAcceleration'',
                ''setAngularDrag'', ''setMass'', ''setImmovable'']"
    by simp
  show ?thesis by (rule exI[of _ s'], rule exI[of _ body]) (simp add: r(1) e k2)
qed

theorem creation_hook_setter_order_witness:
  "initialize ex_group (Ref 0) Null (Ref 5) Undefined ex_state = Some (ex_group, ex_built_state)
   \<and> is_object (heap ex_built_state) (Ref 2)
   \<and> get_prop (heap ex_built_state) (Ref 2) ''body'' = Some (Ref 4)
   \<and> is_instance (heap ex_built_state) (Ref 4) ''Body''
   \<and> (\<exists>s' body. createCallbackHandler ex_group (Ref 2) ex_built_state = Some (Undefined, s')
           \<and> setter_events (drop (length (trace ex_built_state)) (trace s'))
               = map (\<lambda>(key, val). BodySetter body key val) (defined_entries (defaults ex_group))
           \<and> map fst (defaults ex_group) =
               [''setCollideWorldBounds'', ''setBoundsRectangle'', ''setAccelerationX'', ''setAccelerationY'',
                ''setAllowDrag'', ''setAllowGravity'', ''setAllowRotation'', ''setBounceX'', ''setBounceY'',
                ''setDragX'', ''setDragY'', ''setEnable'', ''setGravityX'', ''setGravityY'',
                ''setFrictionX'', ''setFrictionY'', ''setMaxVelocityX'', ''setMaxVelocityY'',
                ''setVelocityX'', ''setVelocityY'', ''setAngularVelocity'', ''setAngularAcceleration'',
                ''setAngularDrag'', ''setMass'', ''setImmovable''])
   \<and> defined_entries (defaults ex_group) =
        [(''setCollideWorldBounds'', Bool True), (''setBoundsRectangle'', Ref 0), (''setVelocityX'', Num (num 100))]"
proof -
  have o: "is_object (heap ex_built_state) (Ref 2)"
    by (simp add: ex_built_state_def ex_heap_def is_object_def)
  have b: "get_prop (heap ex_built_state) (Ref 2) ''body'' = Some (Ref 4)"
    by (simp add: ex_built_state_def ex_heap_def get_prop_def)
  have i: "is_instance (heap ex_built_state) (Ref 4) ''Body''"
    by (simp add: ex_built_state_def ex_heap_def is_instance_def)
  have d: "defined_entries (defaults ex_group) =
        [(''setCollideWorldBounds'', Bool True), (''setBoundsRectangle'', Ref 0), (''setVelocityX'', Num (num 100))]"
    by (simp add: ex_group_def build_defaults_def defaults_table_def GetFastValue_def ex_heap_def
        defined_entries_def)
  have t: "truthy (Ref 4)" by simp
  from creation_hook_setter_order[OF ex_initialize o b] i t
  have c: "\<exists>s' body. createCallbackHandler ex_group (Ref 2) ex_built_state = Some (Undefined, s')
           \<and> setter_events (drop (length (trace ex_built_state)) (trace s'))
               = map (\<lambda>(key, val). BodySetter body key val) (defined_entries (defaults ex_group))
           \<and> map fst (defaults ex_group) =
               [''setCollideWorldBounds'', ''setBoundsRectangle'', ''setAccelerationX'', ''setAccelerationY'',
                ''setAllowDrag'', ''setAllowGravity'', ''setAllowRotation'', ''setBounceX'', ''setBounceY'',
                ''setDragX'', ''setDragY'', ''setEnable'', ''setGravityX'', ''setGravityY'',
                ''setFrictionX'', ''setFrictionY'', ''setMaxVelocityX'', ''setMaxVelocityY'',
                ''setVelocityX'', ''setVelocityY'', ''setAngularVelocity'', ''setAngularAcceleration'',
                ''setAngularDrag'', ''setMass'', ''setImmovable'']"
    by blast
  from ex_initialize o b i c d show ?thesis by blast
qed

text \<open>
  C6 as stated has \<^verbatim>\<open>setBoundsRectangle\<close> invoked before
  \<^verbatim>\<open>setCollideWorldBounds\<close>. With both fields configured, the hook calls
  \<^verbatim>\<open>setCollideWorldBounds\<close> first.
\<close>

theorem creation_hook_bounds_first_counterexample:
  "Option.bind (initialize new_group (Ref 0) Null (Ref 5) Undefined ex_state)
     (\<lambda>(g, s1). map_option (\<lambda>(r, s2). setter_keys (trace s2)) (createCallbackHandler g (Ref 2) s1))
   = Some [''setCollideWorldBounds'', ''setBoundsRectangle'', ''setVelocityX'']"
  by (simp add: initialize_def resolve_args_def IsPlainObject_def set_hooks_def set_prop_def
      GetFastValue_def build_defaults_def defaults_table_def ex_state_def ex_heap_def new_group_def
      createCallbackHandler_def get_prop_def call_setter_def is_instance_def)

section \<open>Properties of the constructor\<close>

text \<open>
  C2. On each supported shape of the arguments (no children and no configuration; a
  configuration record; an array of entities; an array of configuration records) the
  constructor returns, and the configuration it passes to the base \<^verbatim>\<open>Group\<close> has
  \<^verbatim>\<open>internalCreateCallback\<close> set to \<^verbatim>\<open>createCallbackHandler\<close> and
  \<^verbatim>\<open>internalRemoveCallback\<close> set to \<^verbatim>\<open>removeCallbackHandler\<close>, whatever the
  caller's records held under those names.
\<close>

theorem constructor_injects_hooks:
  assumes "supported_shape (heap s) children0 config0"
  shows "\<exists>g s' ch cfg. initialize this w scene children0 config0 s = Some (g, s')
           \<and> trace s' = trace s @ [GroupCall scene ch cfg]
           \<and> get_prop (heap s') cfg ''internalCreateCallback'' = Some (Fn ''createCallbackHandler'')
           \<and> get_prop (heap s') cfg ''internalRemoveCallback'' = Some (Fn ''removeCallbackHandler'')"
proof -
  from resolve_args_total[OF assms] obtain ch cfg s1 where
    "resolve_args children0 config0 s = Some (ch, cfg, s1)" by blast
  from initialize_hooks[OF this, of this w scene] show ?thesis by blast
qed

theorem constructor_injects_hooks_witness:
  "shape_none Undefined Undefined
   \<and> (\<exists>g s' ch cfg. initialize new_group (Ref 0) Null Undefined Undefined ex_state = Some (g, s')
           \<and> trace s' = trace ex_state @ [GroupCall Null ch cfg]
           \<and> get_prop (heap s') cfg ''internalCreateCallback'' = Some (Fn ''createCallbackHandler'')
           \<and> get_prop (heap s') cfg ''internalRemoveCallback'' = Some (Fn ''removeCallbackHandler''))
   \<and> shape_config_record (heap ex_state) (Ref 7)
   \<and> (\<exists>g s' ch cfg. initialize new_group (Ref 0) Null (Ref 7) Undefined ex_state = Some (g, s')
           \<and> trace s' = trace ex_state @ [GroupCall Null ch cfg]
           \<and> get_prop (heap s') cfg ''internalCreateCallback'' = Some (Fn ''createCallbackHandler'')
           \<and> get_prop (heap s') cfg ''internalRemoveCallback'' = Some (Fn ''removeCallbackHandler''))
   \<and> shape_entity_array (heap ex_state) (Ref 6)
   \<and> (\<exists>g s' ch cfg. initialize new_group (Ref 0) Null (Ref 6) Undefined ex_state = Some (g, s')
           \<and> trace s' = trace ex_state @ [GroupCall Null ch cfg]
           \<and> get_prop (heap s') cfg ''internalCreateCallback'' = Some (Fn ''createCallbackHandler'')
           \<and> get_prop (heap s') cfg ''internalRemoveCallback'' = Some (Fn ''removeCallbackHandler''))
   \<and> shape_config_array (heap ex_state) (Ref 8)
   \<and> (\<exists>g s' ch cfg. initialize new_group (Ref 0) Null (Ref 8) Undefined ex_state = Some (g, s')
           \<and> trace s' = trace ex_state @ [GroupCall Null ch cfg]
           \<and> get_prop (heap s') cfg ''internalCreateCallback'' = Some (Fn ''createCallbackHandler'')
           \<and> get_prop (heap s') cfg ''internalRemoveCallback'' = Some (Fn ''removeCallbackHandler''))"
proof -
  have 1: "supported_shape (heap ex_state) Undefined Undefined"
    and 2: "supported_shape (heap ex_state) (Ref 7) Undefined"
    and 3: "supported_shape (heap ex_state) (Ref 6) Undefined"
    and 4: "supported_shape (heap ex_state) (Ref 8) Undefined"
    using ex_shapes by (simp_all add: supported_shape_def)
  note t = constructor_injects_hooks[of ex_state _ Undefined new_group "Ref 0" Null]
  from ex_shapes t[OF 1] t[OF 2] t[OF 3] t[OF 4] show ?thesis by blast
qed

text \<open>
  C4 (as amended). The defaults table has 25 entries, one per line of the literal, each
  read from its own configuration field, the 25 fields being different: entry
  \<open>setter\<close> holds what \<^verbatim>\<open>GetFastValue(config, field, undefined)\<close> returns. An
  entry whose field the configuration does not have is \<^verbatim>\<open>undefined\<close>, and no run
  of the creation hook calls its setter.
\<close>

theorem defaults_table_reads_25_fields:
  assumes "supported_shape (heap s) children0 config0"
  shows "\<exists>g s' ch cfg. initialize this w scene children0 config0 s = Some (g, s')
           \<and> trace s' = trace s @ [GroupCall scene ch cfg]
           \<and> defaults g = map (\<lambda>(setter, field). (setter, GetFastValue (heap s') cfg field Undefined)) defaults_table
           \<and> length (defaults g) = 25
           \<and> distinct (map snd defaults_table)
           \<and> (\<forall>(setter, field) \<in> set defaults_table. \<not> has_own (heap s') cfg field \<longrightarrow>
                 map_of (defaults g) setter = Some Undefined
               \<and> (\<forall>child st r st'. createCallbackHandler g child st = Some (r, st') \<longrightarrow>
                     setter \<notin> set (setter_keys (drop (length (trace st)) (trace st')))))"
proof -
  from resolve_args_total[OF assms] obtain ch cfg s1 where
    "resolve_args children0 config0 s = Some (ch, cfg, s1)" by blast
  from initialize_hooks[OF this, of this w scene] obtain g s' where
    i: "initialize this w scene children0 config0 s = Some (g, s')"
       "trace s' = trace s @ [GroupCall scene ch cfg]"
       "defaults g = build_defaults (heap s') cfg"
    by blast
  have d: "defaults g = map (\<lambda>(setter, field). (setter, GetFastValue (heap s') cfg field Undefined)) defaults_table"
    using i(3) by (simp add: build_defaults_def)
  have l: "length (defaults g) = 25" using i(3) by (simp add: build_defaults_def defaults_table_def)
  have dk: "distinct (map fst (defaults g))"
    using i(3) by (simp add: build_defaults_keys defaults_table_keys_distinct)
  have a: "\<forall>(setter, field) \<in> set defaults_table. \<not> has_own (heap s') cfg field \<longrightarrow>
                 map_of (defaults g) setter = Some Undefined
               \<and> (\<forall>child st r st'. createCallbackHandler g child st = Some (r, st') \<longrightarrow>
                     setter \<notin> set (setter_keys (drop (length (trace st)) (trace st'))))"
  proof (intro ballI, clarify)
    fix setter field
    assume m: "(setter, field) \<in> set defaults_table" and n: "\<not> has_own (heap s') cfg field"
    have u: "map_of (defaults g) setter = Some Undefined"
      using map_of_build_defaults[OF m] GetFastValue_absent[OF n] i(3) by simp
    have nk: "setter \<notin> fst ` set (defined_entries (defaults g))"
      by (rule undefined_entry_not_called[OF dk u])
    have "setter \<notin> set (setter_keys (drop (length (trace st)) (trace st')))"
      if c: "createCallbackHandler g child st = Some (r, st')" for child st r st'
    proof -
      from createCallbackHandler_trace[OF c] obtain pre body where
        t: "trace st' = trace st @ pre @ setter_calls body (defaults g)"
        and pre: "pre = [] \<or> pre = [EnableBody (world g) child DYNAMIC_BODY]" by blast
      from pre have "setter_keys pre = []" by auto
      with t have "setter_keys (drop (length (trace st)) (trace st')) = map fst (defined_entries (defaults g))"
        by (simp add: setter_keys_append setter_keys_setter_calls)
      with nk show ?thesis by simp
    qed
    with u show "map_of (defaults g) setter = Some Undefined
               \<and> (\<forall>child st r st'. createCallbackHandler g child st = Some (r, st') \<longrightarrow>
                     setter \<notin> set (setter_keys (drop (length (trace st)) (trace st'))))"
      by blast
  qed
  from i(1,2) d l defaults_table_fields_distinct a show ?thesis by blast
qed

theorem defaults_table_reads_25_fields_witness:
  "supported_shape (heap ex_state) (Ref 7) Undefined
   \<and> (\<exists>g s' ch cfg. initialize new_group (Ref 0) Null (Ref 7) Undefined ex_state = Some (g, s')
           \<and> trace s' = trace ex_state @ [GroupCall Null ch cfg]
           \<and> defaults g = map (\<lambda>(setter, field). (setter, GetFastValue (heap s') cfg field Undefined)) defaults_table
           \<and> length (defaults g) = 25
           \<and> distinct (map snd defaults_table)
           \<and> (\<forall>(setter, field) \<in> set defaults_table. \<not> has_own (heap s') cfg field \<longrightarrow>
                 map_of (defaults g) setter = Some Undefined
               \<and> (\<forall>child st r st'. createCallbackHandler g child st = Some (r, st') \<longrightarrow>
                     setter \<notin> set (setter_keys (drop (length (trace st)) (trace st'))))))"
proof -
  have 1: "supported_shape (heap ex_state) (Ref 7) Undefined"
    using ex_shapes(2) by (simp add: supported_shape_def)
  from 1 defaults_table_reads_25_fields[OF 1, of new_group "Ref 0" Null] show ?thesis by blast
qed

text \<open>
  C4 as stated has the table read exactly 24 fields. On a configuration that sets every
  field the claim lists, 25 entries of the table are defined.
\<close>

theorem defaults_table_24_fields_counterexample:
  "map_option (\<lambda>(g, s'). length (defined_entries (defaults g)))
     (initialize new_group (Ref 0) Null (Ref 1) Undefined full_state) = Some 25
   \<and> map_option (\<lambda>(g, s'). length (defined_entries (defaults g)))
     (initialize new_group (Ref 0) Null (Ref 1) Undefined full_state) \<noteq> Some 24"
  by (simp add: initialize_def resolve_args_def IsPlainObject_def set_hooks_def set_prop_def
      GetFastValue_def build_defaults_def defaults_table_def full_state_def full_config_def new_group_def
      defined_entries_def)

text \<open>
  C9. When the children argument is an array whose first element is not a configuration
  record, the configuration argument is not used at all: the resolved configuration is a
  new record whose only fields are \<^verbatim>\<open>internalCreateCallback\<close> and
  \<^verbatim>\<open>internalRemoveCallback\<close>, holding the two handlers, the constructor then adds
  \<^verbatim>\<open>classType\<close> with the default \<^verbatim>\<open>ArcadeSprite\<close> to it, every entry
  of the defaults table is \<^verbatim>\<open>undefined\<close>, no object the caller holds is changed,
  and the outcome is the one of the same call without a configuration argument.
\<close>

theorem entity_array_discards_config:
  assumes "isArray (heap s) children0"
    and "\<not> IsPlainObject (heap s) (first_elem (heap s) children0)"
  shows "resolve_args children0 config0 s =
           Some (children0, Ref (length (heap s)),
                 s\<lparr>heap := heap s @
                    [\<lparr>cls = PlainObject,
                      props = [(''internalCreateCallback'', Fn ''createCallbackHandler''),
                               (''internalRemoveCallback'', Fn ''removeCallbackHandler'')],
                      elems = []\<rparr>]\<rparr>)
       \<and> initialize this w scene children0 config0 s =
           Some (this\<lparr>world := w, physicsType := DYNAMIC_BODY,
                      defaults := map (\<lambda>(setter, field). (setter, Undefined)) defaults_table,
                      gtype := ''PhysicsGroup''\<rparr>,
                 \<lparr>heap = heap s @
                    [\<lparr>cls = PlainObject,
                      props = [(''internalCreateCallback'', Fn ''createCallbackHandler''),
                               (''internalRemoveCallback'', Fn ''removeCallbackHandler''),
                               (''classType'', Fn ''ArcadeSprite'')],
                      elems = []\<rparr>],
                  trace = trace s @ [GroupCall scene children0 (Ref (length (heap s)))]\<rparr>)
       \<and> initialize this w scene children0 config0 s = initialize this w scene children0 Undefined s"
proof -
  have r: "\<And>c. resolve_args children0 c s =
           Some (children0, Ref (length (heap s)), s\<lparr>heap := heap s @ [hooks_literal]\<rparr>)"
    using resolve_args_other[of children0 _ s] isArray_truthy[OF assms(1)] isArray_not_plain[OF assms(1)]
      assms(2) by simp
  from r initialize_fresh[OF r] show ?thesis by (simp add: hooks_literal_def)
qed

theorem entity_array_discards_config_witness:
  "isArray (heap ex_state) (Ref 6)
   \<and> \<not> IsPlainObject (heap ex_state) (first_elem (heap ex_state) (Ref 6))
   \<and> IsPlainObject (heap ex_state) (Ref 5)
   \<and> get_prop (heap ex_state) (Ref 5) ''velocityX'' = Some (Num (num 100))
   \<and> resolve_args (Ref 6) (Ref 5) ex_state =
           Some (Ref 6, Ref (length (heap ex_state)),
                 ex_state\<lparr>heap := heap ex_state @
                    [\<lparr>cls = PlainObject,
                      props = [(''internalCreateCallback'', Fn ''createCallbackHandler''),
                               (''internalRemoveCallback'', Fn ''removeCallbackHandler'')],
                      elems = []\<rparr>]\<rparr>)
   \<and> initialize new_group (Ref 0) Null (Ref 6) (Ref 5) ex_state =
           Some (new_group\<lparr>world := Ref 0, physicsType := DYNAMIC_BODY,
                      defaults := map (\<lambda>(setter, field). (setter, Undefined)) defaults_table,
                      gtype := ''PhysicsGroup''\<rparr>,
                 \<lparr>heap = heap ex_state @
                    [\<lparr>cls = PlainObject,
                      props = [(''internalCreateCallback'', Fn ''createCallbackHandler''),
                               (''internalRemoveCallback'', Fn ''removeCallbackHandler''),
                               (''classType'', Fn ''ArcadeSprite'')],
                      elems = []\<rparr>],
                  trace = trace ex_state @ [GroupCall Null (Ref 6) (Ref (length (heap ex_state)))]\<rparr>)
   \<and> initialize new_group (Ref 0) Null (Ref 6) (Ref 5) ex_state
       = initialize new_group (Ref 0) Null (Ref 6) Undefined ex_state"
proof -
  have a: "isArray (heap ex_state) (Ref 6)"
    by (simp add: ex_state_def ex_heap_def isArray_def)
  have n: "\<not> IsPlainObject (heap ex_state) (first_elem (heap ex_state) (Ref 6))"
    by (simp add: ex_state_def ex_heap_def IsPlainObject_def first_elem_def array_elems_def)
  have p: "IsPlainObject (heap ex_state) (Ref 5)"
    by (simp add: ex_state_def ex_heap_def IsPlainObject_def)
  have v: "get_prop (heap ex_state) (Ref 5) ''velocityX'' = Some (Num (num 100))"
    by (simp add: ex_state_def ex_heap_def get_prop_def)
  from a n p v entity_array_discards_config[OF a n, of "Ref 5" new_group "Ref 0" Null]
  show ?thesis by blast
qed

text \<open>
  C10. When the children argument is a configuration record, or a non-empty array of
  configuration records, the constructor allocates no object: it writes the two hooks
  into every record supplied, adopts the record (or the first record of the array) as
  the configuration, writes \<^verbatim>\<open>classType\<close> into it (the value it had, or
  \<^verbatim>\<open>ArcadeSprite\<close>) and passes that same record to the base \<^verbatim>\<open>Group\<close>.
\<close>

theorem constructor_mutates_supplied_records:
  assumes "shape_config_record (heap s) children0 \<or> shape_config_array (heap s) children0"
  shows "\<exists>g s'. initialize this w scene children0 config0 s = Some (g, s')
           \<and> trace s' = trace s @ [GroupCall scene Null (adopted_config (heap s) children0)]
           \<and> length (heap s') = length (heap s)
           \<and> (\<forall>c \<in> set (supplied_records (heap s) children0).
                 get_prop (heap s') c ''internalCreateCallback'' = Some (Fn ''createCallbackHandler'')
               \<and> get_prop (heap s') c ''internalRemoveCallback'' = Some (Fn ''removeCallbackHandler''))
           \<and> get_prop (heap s') (adopted_config (heap s) children0) ''classType''
               = Some (GetFastValue (heap s) (adopted_config (heap s) children0) ''classType'' (Fn ''ArcadeSprite''))"
  using assms
proof
  assume "shape_config_record (heap s) children0"
  then have p: "IsPlainObject (heap s) children0" by (simp add: shape_config_record_def)
  have o: "is_object (heap s) children0" by (rule IsPlainObject_is_object[OF p])
  from set_hooks_object[OF o] obtain s1 where s1: "set_hooks children0 s = Some s1" by blast
  then have r: "resolve_args children0 config0 s = Some (Null, children0, s1)"
    by (simp add: resolve_args_record[OF p])
  note fr = set_hooks_frame[OF s1]
  have gf: "GetFastValue (heap s1) children0 ''classType'' (Fn ''ArcadeSprite'')
          = GetFastValue (heap s) children0 ''classType'' (Fn ''ArcadeSprite'')"
    by (simp add: GetFastValue_get_prop fr(5))
  from initialize_result[OF r, of this w scene] obtain g s' where
    i: "initialize this w scene children0 config0 s = Some (g, s')"
       "trace s' = trace s @ [GroupCall scene Null children0]"
       "length (heap s') = length (heap s1)"
       "\<forall>u k. get_prop (heap s') u k =
                 (if u = children0 \<and> k = ''classType''
                  then Some (GetFastValue (heap s1) children0 ''classType'' (Fn ''ArcadeSprite''))
                  else get_prop (heap s1) u k)"
    by blast
  have "get_prop (heap s') children0 ''internalCreateCallback'' = Some (Fn ''createCallbackHandler'')"
    and "get_prop (heap s') children0 ''internalRemoveCallback'' = Some (Fn ''removeCallbackHandler'')"
    and "get_prop (heap s') children0 ''classType''
          = Some (GetFastValue (heap s) children0 ''classType'' (Fn ''ArcadeSprite''))"
    using i(4) fr(5) o gf by simp_all
  then show ?thesis using i(1,2,3) fr(2) p by (simp add: supplied_records_def adopted_config_def)
next
  assume "shape_config_array (heap s) children0"
  then have a: "isArray (heap s) children0"
    and ne: "array_elems (heap s) children0 \<noteq> []"
    and es: "list_all (IsPlainObject (heap s)) (array_elems (heap s) children0)"
    by (simp_all add: shape_config_array_def)
  let ?c = "first_elem (heap s) children0"
  from first_elem_in_set[OF ne] have mem: "?c \<in> set (array_elems (heap s) children0)" .
  with es have p: "IsPlainObject (heap s) ?c" by (simp add: list_all_iff)
  from es have os: "\<forall>c \<in> set (array_elems (heap s) children0). is_object (heap s) c"
    by (simp add: list_all_iff IsPlainObject_is_object)
  then have "list_all (is_object (heap s)) (array_elems (heap s) children0)" by (simp add: list_all_iff)
  from forEach_set_hooks_total[OF this] obtain s1 where
    s1: "forEach set_hooks (array_elems (heap s) children0) s = Some s1" by blast
  then have r: "resolve_args children0 config0 s = Some (Null, ?c, s1)"
    by (simp add: resolve_args_array[OF a p])
  note fr = forEach_set_hooks_frame[OF s1]
  have gf: "GetFastValue (heap s1) ?c ''classType'' (Fn ''ArcadeSprite'')
          = GetFastValue (heap s) ?c ''classType'' (Fn ''ArcadeSprite'')"
    using fr by (simp add: GetFastValue_get_prop)
  from initialize_result[OF r, of this w scene] obtain g s' where
    i: "initialize this w scene children0 config0 s = Some (g, s')"
       "trace s' = trace s @ [GroupCall scene Null ?c]"
       "length (heap s') = length (heap s1)"
       "\<forall>u k. get_prop (heap s') u k =
                 (if u = ?c \<and> k = ''classType''
                  then Some (GetFastValue (heap s1) ?c ''classType'' (Fn ''ArcadeSprite''))
                  else get_prop (heap s1) u k)"
    by blast
  have hooks: "\<forall>c \<in> set (array_elems (heap s) children0).
                 get_prop (heap s') c ''internalCreateCallback'' = Some (Fn ''createCallbackHandler'')
               \<and> get_prop (heap s') c ''internalRemoveCallback'' = Some (Fn ''removeCallbackHandler'')"
    using i(4) fr os by simp
  have ct: "get_prop (heap s') ?c ''classType''
          = Some (GetFastValue (heap s) ?c ''classType'' (Fn ''ArcadeSprite''))"
    using i(4) gf by simp
  have np: "\<not> IsPlainObject (heap s) children0" by (rule isArray_not_plain[OF a])
  from i(1,2,3) fr hooks ct np show ?thesis by (simp add: supplied_records_def adopted_config_def)
qed

theorem constructor_mutates_supplied_records_witness:
  "shape_config_record (heap ex_state) (Ref 7)
   \<and> (\<exists>g s'. initialize new_group (Ref 0) Null (Ref 7) Undefined ex_state = Some (g, s')
           \<and> trace s' = trace ex_state @ [GroupCall Null Null (adopted_config (heap ex_state) (Ref 7))]
           \<and> length (heap s') = length (heap ex_state)
           \<and> (\<forall>c \<in> set (supplied_records (heap ex_state) (Ref 7)).
                 get_prop (heap s') c ''internalCreateCallback'' = Some (Fn ''createCallbackHandler'')
               \<and> get_prop (heap s') c ''internalRemoveCallback'' = Some (Fn ''removeCallbackHandler''))
           \<and> get_prop (heap s') (adopted_config (heap ex_state) (Ref 7)) ''classType''
               = Some (GetFastValue (heap ex_state) (adopted_config (heap ex_state) (Ref 7)) ''classType'' (Fn ''ArcadeSprite'')))
   \<and> adopted_config (heap ex_state) (Ref 7) = Ref 7
   \<and> supplied_records (heap ex_state) (Ref 7) = [Ref 7]
   \<and> get_prop (heap ex_state) (Ref 7) ''internalCreateCallback'' = Some (Fn ''userHook'')
   \<and> GetFastValue (heap ex_state) (Ref 7) ''classType'' (Fn ''ArcadeSprite'') = Fn ''Ship''
   \<and> shape_config_array (heap ex_state) (Ref 8)
   \<and> (\<exists>g s'. initialize new_group (Ref 0) Null (Ref 8) Undefined ex_state = Some (g, s')
           \<and> trace s' = trace ex_state @ [GroupCall Null Null (adopted_config (heap ex_state) (Ref 8))]
           \<and> length (heap s') = length (heap ex_state)
           \<and> (\<forall>c \<in> set (supplied_records (heap ex_state) (Ref 8)).
                 get_prop (heap s') c ''internalCreateCallback'' = Some (Fn ''createCallbackHandler'')
               \<and> get_prop (heap s') c ''internalRemoveCallback'' = Some (Fn ''removeCallbackHandler''))
           \<and> get_prop (heap s') (adopted_config (heap ex_state) (Ref 8)) ''classType''
               = Some (GetFastValue (heap ex_state) (adopted_config (heap ex_state) (Ref 8)) ''classType'' (Fn ''ArcadeSprite'')))
   \<and> adopted_config (heap ex_state) (Ref 8) = Ref 5
   \<and> supplied_records (heap ex_state) (Ref 8) = [Ref 5, Ref 7]
   \<and> GetFastValue (heap ex_state) (Ref 5) ''classType'' (Fn ''ArcadeSprite'') = Fn ''ArcadeSprite''"
proof -
  note sh = ex_shapes(2) ex_shapes(4)
  have e: "adopted_config (heap ex_state) (Ref 7) = Ref 7"
    "supplied_records (heap ex_state) (Ref 7) = [Ref 7]"
    "get_prop (heap ex_state) (Ref 7) ''internalCreateCallback'' = Some (Fn ''userHook'')"
    "GetFastValue (heap ex_state) (Ref 7) ''classType'' (Fn ''ArcadeSprite'') = Fn ''Ship''"
    "adopted_config (heap ex_state) (Ref 8) = Ref 5"
    "supplied_records (heap ex_state) (Ref 8) = [Ref 5, Ref 7]"
    "GetFastValue (heap ex_state) (Ref 5) ''classType'' (Fn ''ArcadeSprite'') = Fn ''ArcadeSprite''"
    by (simp_all add: adopted_config_def supplied_records_def ex_state_def ex_heap_def IsPlainObject_def
        get_prop_def GetFastValue_def first_elem_def array_elems_def)
  note t = constructor_mutates_supplied_records[of ex_state _ new_group "Ref 0" Null Undefined]
  from sh e t[OF disjI1, OF sh(1)] t[OF disjI2, OF sh(2)] show ?thesis by blast
qed

section \<open>Properties of the bulk velocity setters\<close>

text \<open>
  C3. On a group whose members each have a body with a velocity vector of its own,
  \<^verbatim>\<open>setVelocity(x, y, step)\<close> returns the group itself and leaves the velocity of
  the member at index \<open>i\<close> of \<^verbatim>\<open>getChildren()\<close> at
  \<^verbatim>\<open>(x + (i * step), y + (i * step))\<close>, where an omitted \<^verbatim>\<open>step\<close> counts
  as 0. The two components are the doubles that line 237 computes: the product
  rounded, then the sum rounded. It makes no call on the world. With \<open>x = 10\<close>,
  \<open>y = 20\<close>, \<open>step = 5\<close> and three members the velocities are (10, 20), (15, 25)
  and (20, 30); with \<open>x = 2 ^ 53\<close>, \<open>y = 0\<close> and \<open>step = 1\<close> the second member
  is left at \<open>(2 ^ 53, 1)\<close>.
\<close>

theorem setVelocity_steps:
  assumes "list_all (member_ok (heap s)) (getChildren this)"
    and "distinct (map (velocity_of (heap s)) (getChildren this))"
  shows "\<exists>s'. setVelocity this x y step s = Some (this, s') \<and> trace s' = trace s
           \<and> (\<forall>i. i < length (getChildren this) \<longrightarrow>
                 velocity_xy (heap s') (getChildren this ! i) =
                   Some (Num (dadd x (dmul (of_index i) (case step of None \<Rightarrow> dzero | Some t \<Rightarrow> t))),
                         Num (dadd y (dmul (of_index i) (case step of None \<Rightarrow> dzero | Some t \<Rightarrow> t)))))"
proof -
  let ?st = "case step of None \<Rightarrow> dzero | Some t \<Rightarrow> t"
  from setVelocity_loop_run[OF assms, of 0 x y ?st] obtain s' where
    r: "setVelocity_loop (getChildren this) 0 x y ?st s = Some s'" "trace s' = trace s"
       "\<forall>j. 0 \<le> j \<and> j < length (getChildren this) \<longrightarrow>
                 velocity_xy (heap s') (getChildren this ! j) = Some (Num (dadd x (dmul (of_index j) ?st)), Num (dadd y (dmul (of_index j) ?st)))"
    by blast
  have "setVelocity this x y step s = Some (this, s')" using r(1) by (simp add: setVelocity_def)
  with r(2,3) show ?thesis by simp
qed

theorem setVelocity_steps_witness:
  "list_all (member_ok (heap vel_state)) (getChildren vel_group)
   \<and> distinct (map (velocity_of (heap vel_state)) (getChildren vel_group))
   \<and> getChildren vel_group = [Ref 0, Ref 3, Ref 6]
   \<and> (\<exists>s'. setVelocity vel_group (num 10) (num 20) (Some (num 5)) vel_state = Some (vel_group, s')
         \<and> velocity_xy (heap s') (Ref 0) = Some (Num (num 10), Num (num 20))
         \<and> velocity_xy (heap s') (Ref 3) = Some (Num (num 15), Num (num 25))
         \<and> velocity_xy (heap s') (Ref 6) = Some (Num (num 20), Num (num 30)))
   \<and> (\<exists>s'. setVelocity vel_group (num (2 ^ 53)) (num 0) (Some (num 1)) vel_state = Some (vel_group, s')
         \<and> velocity_xy (heap s') (Ref 3) = Some (Num (num (2 ^ 53)), Num (num 1)))"
proof -
  have c: "getChildren vel_group = [Ref 0, Ref 3, Ref 6]" by (simp add: getChildren_def vel_group_def)
  from setVelocity_steps[OF vel_members_ok vel_members_distinct, of "num 10" "num 20" "Some (num 5)"] obtain s' where
    r: "setVelocity vel_group (num 10) (num 20) (Some (num 5)) vel_state = Some (vel_group, s')"
    and a: "\<forall>i. i < length (getChildren vel_group) \<longrightarrow>
                 velocity_xy (heap s') (getChildren vel_group ! i) = Some (Num (dadd (num 10) (dmul (of_index i) (num 5))), Num (dadd (num 20) (dmul (of_index i) (num 5))))"
    by auto
  from a[rule_format, of 0] c have 0: "velocity_xy (heap s') (Ref 0) = Some (Num (num 10), Num (num 20))"
    by (simp add: steps_example)
  from a[rule_format, of 1] c have 1: "velocity_xy (heap s') (Ref 3) = Some (Num (num 15), Num (num 25))"
    by (simp add: steps_example)
  from a[rule_format, of 2] c have 2: "velocity_xy (heap s') (Ref 6) = Some (Num (num 20), Num (num 30))"
    by (simp add: steps_example)
  from r 0 1 2 have first: "\<exists>s'. setVelocity vel_group (num 10) (num 20) (Some (num 5)) vel_state = Some (vel_group, s')
         \<and> velocity_xy (heap s') (Ref 0) = Some (Num (num 10), Num (num 20))
         \<and> velocity_xy (heap s') (Ref 3) = Some (Num (num 15), Num (num 25))
         \<and> velocity_xy (heap s') (Ref 6) = Some (Num (num 20), Num (num 30))"
    by blast
  from setVelocity_steps[OF vel_members_ok vel_members_distinct, of "num (2 ^ 53)" "num 0" "Some (num 1)"] obtain t' where
    rt: "setVelocity vel_group (num (2 ^ 53)) (num 0) (Some (num 1)) vel_state = Some (vel_group, t')"
    and b: "\<forall>i. i < length (getChildren vel_group) \<longrightarrow>
                 velocity_xy (heap t') (getChildren vel_group ! i) = Some (Num (dadd (num (2 ^ 53)) (dmul (of_index i) (num 1))), Num (dadd (num 0) (dmul (of_index i) (num 1))))"
    by auto
  from b[rule_format, of 1] c have "velocity_xy (heap t') (Ref 3) = Some (Num (num (2 ^ 53)), Num (num 1))"
    by (simp add: steps_rounded)
  with rt have second: "\<exists>s'. setVelocity vel_group (num (2 ^ 53)) (num 0) (Some (num 1)) vel_state = Some (vel_group, s')
         \<and> velocity_xy (heap s') (Ref 3) = Some (Num (num (2 ^ 53)), Num (num 1))"
    by blast
  from vel_members_ok vel_members_distinct c first second show ?thesis by blast
qed

text \<open>
  C8. On a group whose members each have a body with a velocity vector,
  \<^verbatim>\<open>setVelocityX(value)\<close> with no \<^verbatim>\<open>step\<close> returns the group itself and sets
  the X component of every member's velocity to \<open>value\<close>. Nothing else changes: every
  property other than \<^verbatim>\<open>x\<close> of every object reads as before (the Y components and
  the fields of the bodies among them), and so does \<^verbatim>\<open>x\<close> of every object that is
  not the velocity of a member.
\<close>

theorem setVelocityX_no_step:
  assumes "list_all (member_ok (heap s)) (getChildren this)"
  shows "\<exists>s'. setVelocityX this val None s = Some (this, s') \<and> trace s' = trace s
           \<and> (\<forall>item \<in> set (getChildren this).
                 \<exists>v. velocity_of (heap s) item = Some v \<and> velocity_of (heap s') item = Some v
                   \<and> get_prop (heap s') v ''x'' = Some (Num val)
                   \<and> get_prop (heap s') v ''y'' = get_prop (heap s) v ''y'')
           \<and> (\<forall>u k. k \<noteq> ''x'' \<longrightarrow> get_prop (heap s') u k = get_prop (heap s) u k)
           \<and> (\<forall>u. Some u \<notin> velocity_of (heap s) ` set (getChildren this) \<longrightarrow>
                 get_prop (heap s') u ''x'' = get_prop (heap s) u ''x'')"
proof -
  let ?items = "getChildren this"
  from setVelocityX_loop_run[OF assms, of 0 val] obtain s' where
    r: "setVelocityX_loop ?items 0 val dzero s = Some s'" "trace s' = trace s"
       "\<forall>u. velocity_of (heap s') u = velocity_of (heap s) u"
       "\<forall>u k. get_prop (heap s') u k =
                 (if k = ''x'' \<and> (\<exists>j. 0 \<le> j \<and> j < length ?items \<and> velocity_of (heap s) (?items ! j) = Some u)
                  then Some (Num val) else get_prop (heap s) u k)"
    by blast
  have mem: "(\<exists>j. 0 \<le> j \<and> j < length ?items \<and> velocity_of (heap s) (?items ! j) = Some u)
       \<longleftrightarrow> Some u \<in> velocity_of (heap s) ` set ?items" for u
  proof
    assume "\<exists>j. 0 \<le> j \<and> j < length ?items \<and> velocity_of (heap s) (?items ! j) = Some u"
    then obtain j where j: "j < length ?items" "velocity_of (heap s) (?items ! j) = Some u" by blast
    from nth_mem[OF j(1)] j(2) show "Some u \<in> velocity_of (heap s) ` set ?items" by force
  next
    assume "Some u \<in> velocity_of (heap s) ` set ?items"
    then obtain item where "item \<in> set ?items" "velocity_of (heap s) item = Some u" by force
    then obtain j where "j < length ?items" "velocity_of (heap s) (?items ! j) = Some u"
      by (auto simp: in_set_conv_nth)
    then show "\<exists>j. 0 \<le> j \<and> j < length ?items \<and> velocity_of (heap s) (?items ! j) = Some u" by blast
  qed
  have g: "\<forall>u k. get_prop (heap s') u k =
                 (if k = ''x'' \<and> Some u \<in> velocity_of (heap s) ` set ?items
                  then Some (Num val) else get_prop (heap s) u k)"
    using r(4) mem by simp
  have c: "setVelocityX this val None s = Some (this, s')" using r(1) by (simp add: setVelocityX_def)
  have a: "\<forall>item \<in> set ?items.
                 \<exists>v. velocity_of (heap s) item = Some v \<and> velocity_of (heap s') item = Some v
                   \<and> get_prop (heap s') v ''x'' = Some (Num val)
                   \<and> get_prop (heap s') v ''y'' = get_prop (heap s) v ''y''"
  proof
    fix item assume i: "item \<in> set ?items"
    with assms have "member_ok (heap s) item" by (simp add: list_all_iff)
    from member_ok_D[OF this] obtain v where v: "velocity_of (heap s) item = Some v" by blast
    with i have "Some v \<in> velocity_of (heap s) ` set ?items" by force
    with g v r(3) show "\<exists>v. velocity_of (heap s) item = Some v \<and> velocity_of (heap s') item = Some v
                   \<and> get_prop (heap s') v ''x'' = Some (Num val)
                   \<and> get_prop (heap s') v ''y'' = get_prop (heap s) v ''y''"
      by simp
  qed
  from c r(2) a g show ?thesis by simp
qed

theorem setVelocityX_no_step_witness:
  "list_all (member_ok (heap vel_state)) (getChildren vel_group)
   \<and> getChildren vel_group = [Ref 0, Ref 3, Ref 6]
   \<and> velocity_xy (heap vel_state) (Ref 0) = Some (Num (num 1), Num (num 2))
   \<and> velocity_xy (heap vel_state) (Ref 3) = Some (Num (num 3), Num (num 4))
   \<and> velocity_xy (heap vel_state) (Ref 6) = Some (Num (num 5), Num (num 6))
   \<and> (\<exists>s'. setVelocityX vel_group (num 100) None vel_state = Some (vel_group, s')
         \<and> velocity_xy (heap s') (Ref 0) = Some (Num (num 100), Num (num 2))
         \<and> velocity_xy (heap s') (Ref 3) = Some (Num (num 100), Num (num 4))
         \<and> velocity_xy (heap s') (Ref 6) = Some (Num (num 100), Num (num 6))
         \<and> get_prop (heap s') (Ref 1) ''mass'' = Some (Num (num 1)))"
proof -
  have c: "getChildren vel_group = [Ref 0, Ref 3, Ref 6]" by (simp add: getChildren_def vel_group_def)
  have v: "velocity_of (heap vel_state) (Ref 0) = Some (Ref 2)"
    "velocity_of (heap vel_state) (Ref 3) = Some (Ref 5)"
    "velocity_of (heap vel_state) (Ref 6) = Some (Ref 8)"
    by (simp_all add: vel_state_def velocity_of_def get_prop_def)
  have y: "get_prop (heap vel_state) (Ref 2) ''y'' = Some (Num (num 2))"
    "get_prop (heap vel_state) (Ref 5) ''y'' = Some (Num (num 4))"
    "get_prop (heap vel_state) (Ref 8) ''y'' = Some (Num (num 6))"
    "get_prop (heap vel_state) (Ref 1) ''mass'' = Some (Num (num 1))"
    by (simp_all add: vel_state_def get_prop_def)
  have x: "get_prop (heap vel_state) (Ref 2) ''x'' = Some (Num (num 1))"
    "get_prop (heap vel_state) (Ref 5) ''x'' = Some (Num (num 3))"
    "get_prop (heap vel_state) (Ref 8) ''x'' = Some (Num (num 5))"
    by (simp_all add: vel_state_def get_prop_def)
  have old: "velocity_xy (heap vel_state) (Ref 0) = Some (Num (num 1), Num (num 2))"
    "velocity_xy (heap vel_state) (Ref 3) = Some (Num (num 3), Num (num 4))"
    "velocity_xy (heap vel_state) (Ref 6) = Some (Num (num 5), Num (num 6))"
    using v x y by (simp_all add: velocity_xy_def)
  from setVelocityX_no_step[OF vel_members_ok, of "num 100"] obtain s' where
    r: "setVelocityX vel_group (num 100) None vel_state = Some (vel_group, s')"
    and a: "\<forall>item \<in> set (getChildren vel_group).
                 \<exists>v. velocity_of (heap vel_state) item = Some v \<and> velocity_of (heap s') item = Some v
                   \<and> get_prop (heap s') v ''x'' = Some (Num (num 100))
                   \<and> get_prop (heap s') v ''y'' = get_prop (heap vel_state) v ''y''"
    and f: "\<forall>u k. k \<noteq> ''x'' \<longrightarrow> get_prop (heap s') u k = get_prop (heap vel_state) u k"
    by blast
  from a c v y have 0: "velocity_xy (heap s') (Ref 0) = Some (Num (num 100), Num (num 2))"
    and 1: "velocity_xy (heap s') (Ref 3) = Some (Num (num 100), Num (num 4))"
    and 2: "velocity_xy (heap s') (Ref 6) = Some (Num (num 100), Num (num 6))"
    by (auto simp: velocity_xy_def)
  from f y(4) have m: "get_prop (heap s') (Ref 1) ''mass'' = Some (Num (num 1))" by simp
  from vel_members_ok c old r 0 1 2 m show ?thesis by blast
qed

end
